theory Spec2Isabelle
  imports Complex_Main
begin

section \<open>Strings\<close>

text \<open>
  A JavaScript string is modelled by the UTF-8 encoding of its text (a \<^typ>\<open>string\<close>, one
  \<^typ>\<open>char\<close> per byte). Every separator, keyword and pattern of the program is ASCII, and
  an ASCII byte never occurs inside a multi-byte UTF-8 sequence, so \<open>split\<close>, \<open>startsWith\<close>,
  \<open>join\<close> and the regular expressions act on the encoding as they act on the text.
  Strings with unpaired surrogates have no encoding and are outside the model.
\<close>

text \<open>\<open>s.split(sep)\<close> for a one-character separator: never empty, \<open>"".split("/")\<close> is \<open>[""]\<close>.\<close>

fun split_on :: "char \<Rightarrow> string \<Rightarrow> string list" where
  "split_on sep [] = [[]]"
| "split_on sep (c # cs) =
     (if c = sep then [] # split_on sep cs
      else (case split_on sep cs of [] \<Rightarrow> [[c]] | p # ps \<Rightarrow> (c # p) # ps))"

text \<open>\<open>parts.join(sep)\<close>.\<close>

fun join_with :: "string \<Rightarrow> string list \<Rightarrow> string" where
  "join_with sep [] = []"
| "join_with sep [p] = p"
| "join_with sep (p # q # ps) = p @ sep @ join_with sep (q # ps)"

text \<open>\<open>s.startsWith(p)\<close>.\<close>

definition startsWith :: "string \<Rightarrow> string \<Rightarrow> bool" where
  "startsWith s p = (take (length p) s = p)"

section \<open>Numbers\<close>

text \<open>
  A JavaScript number is a finite value, \<open>NaN\<close> or an infinity. Finite values are modelled
  by exact rationals: the program never calculates with a number, it only reads one from a
  string (\<open>Number(s)\<close>), tests it (\<open>isNaN\<close>) and prints it (a template literal). The model
  agrees with IEEE doubles on every integer of magnitude below \<open>2^53\<close>; the rounding of longer
  literals to a double, overflow to an infinity and the sign of zero are outside the model.
\<close>

datatype number = Fin rat | NaN | PosInfinity | NegInfinity

definition isNaN :: "number \<Rightarrow> bool" where
  "isNaN n = (n = NaN)"

definition digit_chars :: string where
  "digit_chars = ''0123456789''"

definition is_digit :: "char \<Rightarrow> bool" where
  "is_digit c = (c \<in> set digit_chars)"

definition digit_val :: "char \<Rightarrow> nat" where
  "digit_val c =
     (let n = (of_char c :: nat) in
      if 48 \<le> n \<and> n \<le> 57 then n - 48
      else if 97 \<le> n \<and> n \<le> 102 then n - 87
      else if 65 \<le> n \<and> n \<le> 70 then n - 55
      else 0)"

definition radix_val :: "nat \<Rightarrow> string \<Rightarrow> nat" where
  "radix_val b ds = foldl (\<lambda>a c. b * a + digit_val c) 0 ds"

text \<open>The decimal digits of a natural number, most significant first.\<close>

fun digits_of :: "nat \<Rightarrow> string" where
  "digits_of n =
     (if n < 10 then [digit_chars ! n]
      else digits_of (n div 10) @ [digit_chars ! (n mod 10)])"

declare digits_of.simps [simp del]

text \<open>
  The white space that \<open>Number\<close> trims (\<open>StrWhiteSpaceChar\<close>: TAB, LF, VT, FF, CR, SP, NBSP,
  U+1680, U+2000 to U+200A, U+2028, U+2029, U+202F, U+205F, U+3000, U+FEFF), in UTF-8.
\<close>

definition white_space :: "string list" where
  "white_space =
     [[CHR 0x09], [CHR 0x0A], [CHR 0x0B], [CHR 0x0C], [CHR 0x0D], [CHR 0x20],
      [CHR 0xC2, CHR 0xA0], [CHR 0xE1, CHR 0x9A, CHR 0x80],
      [CHR 0xE2, CHR 0x80, CHR 0x80], [CHR 0xE2, CHR 0x80, CHR 0x81],
      [CHR 0xE2, CHR 0x80, CHR 0x82], [CHR 0xE2, CHR 0x80, CHR 0x83],
      [CHR 0xE2, CHR 0x80, CHR 0x84], [CHR 0xE2, CHR 0x80, CHR 0x85],
      [CHR 0xE2, CHR 0x80, CHR 0x86], [CHR 0xE2, CHR 0x80, CHR 0x87],
      [CHR 0xE2, CHR 0x80, CHR 0x88], [CHR 0xE2, CHR 0x80, CHR 0x89],
      [CHR 0xE2, CHR 0x80, CHR 0x8A], [CHR 0xE2, CHR 0x80, CHR 0xA8],
      [CHR 0xE2, CHR 0x80, CHR 0xA9], [CHR 0xE2, CHR 0x80, CHR 0xAF],
      [CHR 0xE2, CHR 0x81, CHR 0x9F], [CHR 0xE3, CHR 0x80, CHR 0x80],
      [CHR 0xEF, CHR 0xBB, CHR 0xBF]]"

text \<open>The length of the white-space character that \<open>s\<close> starts with, 0 when there is none.\<close>

definition ws_prefix :: "string list \<Rightarrow> string \<Rightarrow> nat" where
  "ws_prefix ws s = (case find (startsWith s) ws of None \<Rightarrow> 0 | Some w \<Rightarrow> length w)"

function strip_ws :: "string list \<Rightarrow> string \<Rightarrow> string" where
  "strip_ws ws s =
     (if ws_prefix ws s = 0 \<or> s = [] then s else strip_ws ws (drop (ws_prefix ws s) s))"
  by pat_completeness auto
termination
  by (relation "measure (\<lambda>(ws, s). length s)") auto

declare strip_ws.simps [simp del]

definition trim :: "string \<Rightarrow> string" where
  "trim s = rev (strip_ws (map rev white_space) (rev (strip_ws white_space s)))"

text \<open>\<open>ExponentPart\<close>: \<open>e\<close> or \<open>E\<close>, an optional sign, at least one digit.\<close>

definition signed_digits :: "string \<Rightarrow> int option" where
  "signed_digits r =
     (let (sg, ds) = (case r of [] \<Rightarrow> (1, [])
                      | c # cs \<Rightarrow> if c = CHR ''+'' then (1, cs)
                                 else if c = CHR ''-'' then (- 1, cs) else (1, r))
      in if ds \<noteq> [] \<and> list_all is_digit ds then Some (sg * int (radix_val 10 ds)) else None)"

definition exponent_part :: "string \<Rightarrow> int option" where
  "exponent_part r =
     (case r of [] \<Rightarrow> Some 0
      | c # cs \<Rightarrow> if c = CHR ''e'' \<or> c = CHR ''E'' then signed_digits cs else None)"

text \<open>
  \<open>StrUnsignedDecimalLiteral\<close> without \<open>Infinity\<close>: digits, an optional fraction, an optional
  exponent; at least one digit before or after the point.
\<close>

definition str_decimal :: "string \<Rightarrow> rat option" where
  "str_decimal r =
     (let ip = takeWhile is_digit r; r1 = dropWhile is_digit r;
          (fp, r2) = (case r1 of [] \<Rightarrow> ([], [])
                      | c # cs \<Rightarrow> if c = CHR ''.''
                                 then (takeWhile is_digit cs, dropWhile is_digit cs)
                                 else ([], r1))
      in if ip = [] \<and> fp = [] then None
         else (case exponent_part r2 of None \<Rightarrow> None
               | Some e \<Rightarrow>
                   Some (of_nat (radix_val 10 (ip @ fp)) * 10 powi (e - int (length fp)))))"

text \<open>\<open>NonDecimalIntegerLiteral\<close>: \<open>0x\<close>, \<open>0o\<close> or \<open>0b\<close> and at least one digit of that radix.\<close>

definition non_decimal :: "string \<Rightarrow> nat option" where
  "non_decimal t =
     (case t of
        z # c # ds \<Rightarrow>
          if z \<noteq> CHR ''0'' \<or> ds = [] then None
          else if c \<in> set ''xX'' \<and> list_all (\<lambda>d. d \<in> set ''0123456789abcdefABCDEF'') ds
            then Some (radix_val 16 ds)
          else if c \<in> set ''oO'' \<and> list_all (\<lambda>d. d \<in> set ''01234567'') ds
            then Some (radix_val 8 ds)
          else if c \<in> set ''bB'' \<and> list_all (\<lambda>d. d \<in> set ''01'') ds
            then Some (radix_val 2 ds)
          else None
      | _ \<Rightarrow> None)"

definition unsigned_literal :: "string \<Rightarrow> number" where
  "unsigned_literal r =
     (if r = ''Infinity'' then PosInfinity
      else (case str_decimal r of None \<Rightarrow> NaN | Some q \<Rightarrow> Fin q))"

fun negate :: "number \<Rightarrow> number" where
  "negate (Fin q) = Fin (- q)"
| "negate NaN = NaN"
| "negate PosInfinity = NegInfinity"
| "negate NegInfinity = PosInfinity"

text \<open>\<open>Number(s)\<close> for a string \<open>s\<close> (\<open>StringToNumber\<close>): the empty string is 0.\<close>

definition Number :: "string \<Rightarrow> number" where
  "Number s =
     (let t = trim s in
      if t = [] then Fin 0
      else (case non_decimal t of
              Some n \<Rightarrow> Fin (of_nat n)
            | None \<Rightarrow>
                if hd t = CHR ''+'' then unsigned_literal (tl t)
                else if hd t = CHR ''-'' then negate (unsigned_literal (tl t))
                else unsigned_literal t))"

text \<open>
  Printing a positive number (\<open>Number::toString\<close>): \<open>k\<close> significant digits \<open>s\<close> and the
  position \<open>n\<close> of the decimal point; at most 17 digits are kept.
\<close>

definition strip_zeros :: "string \<Rightarrow> string" where
  "strip_zeros ds = rev (dropWhile (\<lambda>c. c = CHR ''0'') (rev ds))"

definition point_position :: "rat \<Rightarrow> int" where
  "point_position x =
     (let (a, b) = quotient_of x in
      if b \<le> a then int (length (digits_of (nat (a div b))))
      else (let da = length (digits_of (nat a)); db = length (digits_of (nat b))
            in if b \<le> a * 10 ^ (db - da) then 1 - int (db - da) else - int (db - da)))"

definition positive_to_string :: "rat \<Rightarrow> string" where
  "positive_to_string x =
     (if of_int \<lfloor>x\<rfloor> = x \<and> x < 10 ^ 21 then digits_of (nat \<lfloor>x\<rfloor>)
      else
        (let n = point_position x;
             s = strip_zeros (digits_of (nat \<lfloor>x * 10 powi (17 - n)\<rfloor>));
             k = int (length s)
         in if k \<le> n \<and> n \<le> 21 then s @ replicate (nat (n - k)) (CHR ''0'')
            else if 0 < n \<and> n \<le> 21 then take (nat n) s @ ''.'' @ drop (nat n) s
            else if - 6 < n \<and> n \<le> 0 then ''0.'' @ replicate (nat (- n)) (CHR ''0'') @ s
            else (if k = 1 then s else take 1 s @ ''.'' @ drop 1 s)
                 @ ''e'' @ (if 0 \<le> n - 1 then ''+'' else ''-'') @ digits_of (nat \<bar>n - 1\<bar>)))"

text \<open>\<open>`${n}`\<close> for a number \<open>n\<close>.\<close>

fun number_to_string :: "number \<Rightarrow> string" where
  "number_to_string NaN = ''NaN''"
| "number_to_string PosInfinity = ''Infinity''"
| "number_to_string NegInfinity = ''-Infinity''"
| "number_to_string (Fin q) =
     (if q = 0 then ''0''
      else if q < 0 then ''-'' @ positive_to_string (- q)
      else positive_to_string q)"

section \<open>Regular expressions\<close>

text \<open>
  The fragment of JavaScript regular expressions that the program uses: literal text, a
  character class (the list of its characters), a class under \<open>*\<close> or \<open>+\<close>, sequence,
  alternation, \<open>?\<close>, a capture group and \<open>$\<close>. Every pattern of the program starts with
  \<open>^\<close>, so a match is attempted at the start of the input only.
\<close>

datatype regex =
    Str string
  | One string
  | Star string
  | Plus string
  | Seq regex regex
  | Alt regex regex
  | Opt regex
  | Grp regex
  | Eos

text \<open>
  The inputs left after a greedy \<open>[cl]*\<close>, in the order in which backtracking tries them:
  the longest run first.
\<close>

fun star_run :: "string \<Rightarrow> string \<Rightarrow> string list" where
  "star_run cl [] = [[]]"
| "star_run cl (c # cs) = (if c \<in> set cl then star_run cl cs @ [c # cs] else [c # cs])"

text \<open>
  All ways to match a prefix of the input, in backtracking order: the texts captured by the
  groups, and the input left.
\<close>

fun rx_run :: "regex \<Rightarrow> string \<Rightarrow> (string list \<times> string) list" where
  "rx_run (Str p) s = (if startsWith s p then [([], drop (length p) s)] else [])"
| "rx_run (One cl) s = (case s of [] \<Rightarrow> [] | c # cs \<Rightarrow> if c \<in> set cl then [([], cs)] else [])"
| "rx_run (Star cl) s = map (Pair []) (star_run cl s)"
| "rx_run (Plus cl) s =
     (case s of [] \<Rightarrow> [] | c # cs \<Rightarrow> if c \<in> set cl then map (Pair []) (star_run cl cs) else [])"
| "rx_run (Seq a b) s =
     concat (map (\<lambda>(ca, t). map (\<lambda>(cb, u). (ca @ cb, u)) (rx_run b t)) (rx_run a s))"
| "rx_run (Alt a b) s = rx_run a s @ rx_run b s"
| "rx_run (Opt a) s = rx_run a s @ [([], s)]"
| "rx_run (Grp a) s = map (\<lambda>(ca, t). (take (length s - length t) s # ca, t)) (rx_run a s)"
| "rx_run Eos s = (if s = [] then [([], [])] else [])"

fun Seqs :: "regex list \<Rightarrow> regex" where
  "Seqs [] = Str []"
| "Seqs [r] = r"
| "Seqs (r # rs) = Seq r (Seqs rs)"

text \<open>\<open>re.test(s)\<close>, \<open>s.match(re)\<close> (the captures of the first match) and \<open>s.replace(re, "")\<close>.\<close>

definition rx_test :: "regex \<Rightarrow> string \<Rightarrow> bool" where
  "rx_test r s = (rx_run r s \<noteq> [])"

definition rx_match :: "regex \<Rightarrow> string \<Rightarrow> string list option" where
  "rx_match r s = (case rx_run r s of [] \<Rightarrow> None | (caps, t) # _ \<Rightarrow> Some caps)"

definition rx_remove :: "regex \<Rightarrow> string \<Rightarrow> string" where
  "rx_remove r s = (case rx_run r s of [] \<Rightarrow> s | (caps, t) # _ \<Rightarrow> t)"

definition lower_chars :: string where
  "lower_chars = ''abcdefghijklmnopqrstuvwxyz''"

definition upper_chars :: string where
  "upper_chars = ''ABCDEFGHIJKLMNOPQRSTUVWXYZ''"

section \<open>URLs\<close>

text \<open>
  The properties of a \<open>URL\<close> object that the program reads. The platform's URL parser
  (\<open>new URL(s)\<close>) is a parameter \<open>P\<close> of every function that calls it: \<open>P s = None\<close> when the
  constructor throws.
\<close>

record URL =
  href :: string
  origin :: string
  hostname :: string
  pathname :: string
  search :: string

datatype url_like = UStr string | UObj URL

text \<open>\<open>typeof url === "string" ? new URL(url) : url\<close>\<close>

fun to_URL :: "(string \<Rightarrow> URL option) \<Rightarrow> url_like \<Rightarrow> URL option" where
  "to_URL P (UStr s) = P s"
| "to_URL P (UObj u) = Some u"

text \<open>\<open>url.toString()\<close>\<close>

fun toString :: "url_like \<Rightarrow> string" where
  "toString (UStr s) = s"
| "toString (UObj u) = href u"

subsection \<open>Percent-decoding\<close>

datatype error = URIError

text \<open>
  \<open>decodeURIComponent\<close> throws a \<open>URIError\<close> when a \<open>%\<close> is not followed by two hexadecimal
  digits, or when the escaped bytes from \<open>0x80\<close> up are not the UTF-8 encoding of code
  points, each byte escaped. First every escape is read, then the escaped bytes are checked.
\<close>

datatype octet = Raw char | Esc char

definition is_hex :: "char \<Rightarrow> bool" where
  "is_hex c = (c \<in> set ''0123456789abcdefABCDEF'')"

fun unescape :: "string \<Rightarrow> octet list option" where
  "unescape [] = Some []"
| "unescape (c # cs) =
     (if c \<noteq> CHR ''%'' then map_option ((#) (Raw c)) (unescape cs)
      else (case cs of
              h1 # h2 # rest \<Rightarrow>
                if is_hex h1 \<and> is_hex h2
                then map_option ((#) (Esc (char_of (16 * digit_val h1 + digit_val h2))))
                       (unescape rest)
                else None
            | _ \<Rightarrow> None))"

definition continuation :: "nat \<Rightarrow> nat \<Rightarrow> char \<Rightarrow> bool" where
  "continuation lo hi b = (lo \<le> (of_char b :: nat) \<and> (of_char b :: nat) \<le> hi)"

fun assemble :: "octet list \<Rightarrow> string option" where
  "assemble [] = Some []"
| "assemble (Raw c # os) = map_option ((#) c) (assemble os)"
| "assemble (Esc b # os) =
     (let n = (of_char b :: nat) in
      if n < 0x80 then map_option ((#) b) (assemble os)
      else if 0xC2 \<le> n \<and> n \<le> 0xDF then
        (case os of
           Esc b1 # os' \<Rightarrow>
             if continuation 0x80 0xBF b1 then map_option ((@) [b, b1]) (assemble os') else None
         | _ \<Rightarrow> None)
      else if 0xE0 \<le> n \<and> n \<le> 0xEF then
        (case os of
           Esc b1 # Esc b2 # os' \<Rightarrow>
             if continuation (if n = 0xE0 then 0xA0 else 0x80) (if n = 0xED then 0x9F else 0xBF) b1
                \<and> continuation 0x80 0xBF b2
             then map_option ((@) [b, b1, b2]) (assemble os') else None
         | _ \<Rightarrow> None)
      else if 0xF0 \<le> n \<and> n \<le> 0xF4 then
        (case os of
           Esc b1 # Esc b2 # Esc b3 # os' \<Rightarrow>
             if continuation (if n = 0xF0 then 0x90 else 0x80) (if n = 0xF4 then 0x8F else 0xBF) b1
                \<and> continuation 0x80 0xBF b2 \<and> continuation 0x80 0xBF b3
             then map_option ((@) [b, b1, b2, b3]) (assemble os') else None
         | _ \<Rightarrow> None)
      else None)"

definition decodeURIComponent :: "string \<Rightarrow> error + string" where
  "decodeURIComponent s =
     (case unescape s of
        None \<Rightarrow> Inl URIError
      | Some os \<Rightarrow> (case assemble os of None \<Rightarrow> Inl URIError | Some r \<Rightarrow> Inr r))"

section \<open>The hostname matcher\<close>

text \<open>\<open>/^[a-zA-Z0-9-]+-\d+\.(?:cos|pic)\.[a-z]+-[a-z0-9]+(?:-\d+)?\.myqcloud\.com$/\<close>\<close>

definition COS_HOSTNAME_RE :: regex where
  "COS_HOSTNAME_RE =
     Seqs [Plus (lower_chars @ upper_chars @ digit_chars @ ''-''), Str ''-'', Plus digit_chars,
           Str ''.'', Alt (Str ''cos'') (Str ''pic''), Str ''.'',
           Plus lower_chars, Str ''-'', Plus (lower_chars @ digit_chars),
           Opt (Seq (Str ''-'') (Plus digit_chars)),
           Str ''.myqcloud.com'', Eos]"

definition isCosUrl :: "(string \<Rightarrow> URL option) \<Rightarrow> url_like \<Rightarrow> bool" where
  "isCosUrl P url =
     (case to_URL P url of
        None \<Rightarrow> False
      | Some u \<Rightarrow> rx_test COS_HOSTNAME_RE (hostname u))"

section \<open>Operation sets\<close>

text \<open>
  The development follows the latest revision of \<open>index.ts\<close> in the repository, the one
  whose \<open>generate\<close> and \<open>transform\<close> take options and pipeline segments;
  \<open>buildImageMogr2\<close> and \<open>parseImageMogr2\<close> are the same in the revision before it.
\<close>

datatype QCloudCosThumbnailMode = Fit | Cover | Force | ShrinkOnly | EnlargeOnly

datatype flip_direction = Vertical | Horizontal

fun flip_name :: "flip_direction \<Rightarrow> string" where
  "flip_name Vertical = ''vertical''"
| "flip_name Horizontal = ''horizontal''"

text \<open>\<open>quality?: number | string\<close>\<close>

datatype quality_value = QNum number | QStr string

fun quality_to_string :: "quality_value \<Rightarrow> string" where
  "quality_to_string (QNum n) = number_to_string n"
| "quality_to_string (QStr s) = s"

text \<open>
  An optional property is \<open>None\<close> when reading it gives \<open>undefined\<close>. An own property that
  holds \<open>undefined\<close> is not told apart from a missing one, and \<open>null\<close> is no value of these
  types. The field \<open>rotate\<close> is named \<open>rotate_op\<close> here.
\<close>

record QCloudCosOperations =
  width :: "number option"
  height :: "number option"
  format :: "string option"
  quality :: "quality_value option"
  thumbnailMode :: "QCloudCosThumbnailMode option"
  autoOrient :: "bool option"
  rotate_op :: "number option"
  flip :: "flip_direction option"
  iradius :: "number option"
  rradius :: "number option"
  rquality :: "number option"
  lquality :: "number option"
  ignoreError :: "bool option"

text \<open>
  \<open>QCloudCosOptions\<close> declares seven of these properties (format, thumbnailMode, quality,
  rquality, lquality, autoOrient, ignoreError); an object of that type may carry the others
  as well, and the spread copies whatever is there.
\<close>

type_synonym QCloudCosOptions = QCloudCosOperations

text \<open>\<open>{}\<close>\<close>

definition no_operations :: QCloudCosOperations where
  "no_operations =
     \<lparr>width = None, height = None, format = None, quality = None, thumbnailMode = None,
      autoOrient = None, rotate_op = None, flip = None, iradius = None, rradius = None,
      rquality = None, lquality = None, ignoreError = None\<rparr>"

text \<open>\<open>{ ...a, ...b }\<close>: the properties of \<open>b\<close> over those of \<open>a\<close>.\<close>

definition over :: "'a option \<Rightarrow> 'a option \<Rightarrow> 'a option" where
  "over a b = (case b of None \<Rightarrow> a | Some v \<Rightarrow> Some v)"

definition spread :: "QCloudCosOperations \<Rightarrow> QCloudCosOperations \<Rightarrow> QCloudCosOperations" where
  "spread a b =
     \<lparr>width = over (width a) (width b), height = over (height a) (height b),
      format = over (format a) (format b), quality = over (quality a) (quality b),
      thumbnailMode = over (thumbnailMode a) (thumbnailMode b),
      autoOrient = over (autoOrient a) (autoOrient b),
      rotate_op = over (rotate_op a) (rotate_op b), flip = over (flip a) (flip b),
      iradius = over (iradius a) (iradius b), rradius = over (rradius a) (rradius b),
      rquality = over (rquality a) (rquality b), lquality = over (lquality a) (lquality b),
      ignoreError = over (ignoreError a) (ignoreError b)\<rparr>"

section \<open>The token serializer\<close>

text \<open>\<open>hasWidth ? ops.width : ""\<close> inside the template literal.\<close>

definition dimension :: "number option \<Rightarrow> string" where
  "dimension d = (case d of None \<Rightarrow> [] | Some n \<Rightarrow> number_to_string n)"

text \<open>The array \<open>parts\<close> of \<open>buildImageMogr2\<close> after the last \<open>push\<close>.\<close>

definition build_parts :: "QCloudCosOperations \<Rightarrow> string list" where
  "build_parts ops =
     (let parts = [];
          hasWidth = (width ops \<noteq> None);
          hasHeight = (height ops \<noteq> None);
          parts =
            (if hasWidth \<or> hasHeight then
               (let w = dimension (width ops);
                    h = dimension (height ops);
                    mode = (case thumbnailMode ops of None \<Rightarrow> Fit | Some m \<Rightarrow> m)
                in case mode of
                     Cover \<Rightarrow> parts @ [''crop/'' @ w @ ''x'' @ h]
                   | Force \<Rightarrow> parts @ [''thumbnail/'' @ w @ ''x'' @ h @ ''!'']
                   | ShrinkOnly \<Rightarrow> parts @ [''thumbnail/'' @ w @ ''x'' @ h @ ''>'']
                   | EnlargeOnly \<Rightarrow> parts @ [''thumbnail/'' @ w @ ''x'' @ h @ ''<'']
                   | Fit \<Rightarrow> parts @ [''thumbnail/'' @ w @ ''x'' @ h])
             else parts);
          parts = (case iradius ops of
                     Some n \<Rightarrow> parts @ [''iradius/'' @ number_to_string n] | None \<Rightarrow> parts);
          parts = (case rradius ops of
                     Some n \<Rightarrow> parts @ [''rradius/'' @ number_to_string n] | None \<Rightarrow> parts);
          parts = (if autoOrient ops = Some True then parts @ [''auto-orient''] else parts);
          parts = (case rotate_op ops of
                     Some n \<Rightarrow> parts @ [''rotate/'' @ number_to_string n] | None \<Rightarrow> parts);
          parts = (case flip ops of
                     Some d \<Rightarrow> parts @ [''flip/'' @ flip_name d] | None \<Rightarrow> parts);
          parts = (case format ops of
                     Some f \<Rightarrow> if f \<noteq> [] then parts @ [''format/'' @ f] else parts
                   | None \<Rightarrow> parts);
          parts = (case quality ops of
                     Some q \<Rightarrow> parts @ [''quality/'' @ quality_to_string q] | None \<Rightarrow> parts);
          parts = (case rquality ops of
                     Some n \<Rightarrow> parts @ [''rquality/'' @ number_to_string n] | None \<Rightarrow> parts);
          parts = (case lquality ops of
                     Some n \<Rightarrow> parts @ [''lquality/'' @ number_to_string n] | None \<Rightarrow> parts);
          parts = (if ignoreError ops = Some True then parts @ [''ignore-error/1''] else parts)
      in parts)"

definition buildImageMogr2 :: "QCloudCosOperations \<Rightarrow> string" where
  "buildImageMogr2 ops =
     (let parts = build_parts ops
      in if length parts = 0 then [] else ''imageMogr2/'' @ join_with ''/'' parts)"

section \<open>The token parser\<close>

text \<open>\<open>/^(\d*)x(\d*)!$/\<close>, the same with \<open>>\<close> and \<open><\<close>, and \<open>/^(\d*)x(\d*)/\<close>.\<close>

definition dims_re :: "regex list" where
  "dims_re = [Grp (Star digit_chars), Str ''x'', Grp (Star digit_chars)]"

definition force_re :: regex where
  "force_re = Seqs (dims_re @ [Str ''!'', Eos])"

definition shrink_re :: regex where
  "shrink_re = Seqs (dims_re @ [Str ''>'', Eos])"

definition enlarge_re :: regex where
  "enlarge_re = Seqs (dims_re @ [Str ''<'', Eos])"

definition fit_re :: regex where
  "fit_re = Seqs dims_re"

text \<open>\<open>if (m[1]) ops.width = Number(m[1]); if (m[2]) ops.height = Number(m[2]);\<close>\<close>

definition set_dims :: "string list \<Rightarrow> QCloudCosOperations \<Rightarrow> QCloudCosOperations" where
  "set_dims m ops =
     (case m of
        [m1, m2] \<Rightarrow>
          (let ops = (if m1 \<noteq> [] then ops\<lparr>width := Some (Number m1)\<rparr> else ops);
               ops = (if m2 \<noteq> [] then ops\<lparr>height := Some (Number m2)\<rparr> else ops)
           in ops)
      | _ \<Rightarrow> ops)"

definition thumbnail_arg :: "string \<Rightarrow> QCloudCosOperations \<Rightarrow> QCloudCosOperations" where
  "thumbnail_arg next ops =
     (case rx_match force_re next of
        Some m \<Rightarrow> (set_dims m ops)\<lparr>thumbnailMode := Some Force\<rparr>
      | None \<Rightarrow>
     (case rx_match shrink_re next of
        Some m \<Rightarrow> (set_dims m ops)\<lparr>thumbnailMode := Some ShrinkOnly\<rparr>
      | None \<Rightarrow>
     (case rx_match enlarge_re next of
        Some m \<Rightarrow> (set_dims m ops)\<lparr>thumbnailMode := Some EnlargeOnly\<rparr>
      | None \<Rightarrow>
     (case rx_match fit_re next of
        Some m \<Rightarrow> set_dims m ops
      | None \<Rightarrow> ops))))"

definition crop_arg :: "string \<Rightarrow> QCloudCosOperations \<Rightarrow> QCloudCosOperations" where
  "crop_arg next ops =
     (case rx_match fit_re next of
        Some m \<Rightarrow> (set_dims m ops)\<lparr>thumbnailMode := Some Cover\<rparr>
      | None \<Rightarrow> ops)"

text \<open>
  The body of the \<open>for\<close> loop at one index: \<open>next\<close> is \<open>None\<close> when \<open>parts[i + 1]\<close> is
  \<open>undefined\<close>. The result is the updated operation set and whether the body ran \<open>i++\<close>.
\<close>

definition parse_step ::
  "string \<Rightarrow> string option \<Rightarrow> QCloudCosOperations \<Rightarrow> QCloudCosOperations \<times> bool" where
  "parse_step token next ops =
     (if token = ''thumbnail'' \<and> next \<noteq> None then (thumbnail_arg (the next) ops, True)
      else if token = ''crop'' \<and> next \<noteq> None then (crop_arg (the next) ops, True)
      else if token = ''gravity'' \<and> next \<noteq> None then (ops, True)
      else if token = ''iradius'' \<and> next \<noteq> None then
        (let n = Number (the next) in (if \<not> isNaN n then ops\<lparr>iradius := Some n\<rparr> else ops, True))
      else if token = ''rradius'' \<and> next \<noteq> None then
        (let n = Number (the next) in (if \<not> isNaN n then ops\<lparr>rradius := Some n\<rparr> else ops, True))
      else if token = ''auto-orient'' then (ops\<lparr>autoOrient := Some True\<rparr>, False)
      else if token = ''rotate'' \<and> next \<noteq> None then
        (let n = Number (the next) in (if \<not> isNaN n then ops\<lparr>rotate_op := Some n\<rparr> else ops, True))
      else if token = ''flip'' \<and> next \<noteq> None then
        (if the next = ''vertical'' then ops\<lparr>flip := Some Vertical\<rparr>
         else if the next = ''horizontal'' then ops\<lparr>flip := Some Horizontal\<rparr>
         else ops, True)
      else if token = ''format'' \<and> next \<noteq> None then (ops\<lparr>format := Some (the next)\<rparr>, True)
      else if token = ''quality'' \<and> next \<noteq> None then
        (let num = Number (the next)
         in (ops\<lparr>quality := Some (if isNaN num then QStr (the next) else QNum num)\<rparr>, True))
      else if token = ''rquality'' \<and> next \<noteq> None then
        (let q = Number (the next) in (if \<not> isNaN q then ops\<lparr>rquality := Some q\<rparr> else ops, True))
      else if token = ''lquality'' \<and> next \<noteq> None then
        (let q = Number (the next) in (if \<not> isNaN q then ops\<lparr>lquality := Some q\<rparr> else ops, True))
      else if token = ''ignore-error'' then (ops\<lparr>ignoreError := Some True\<rparr>, next = Some ''1'')
      else (ops, False))"

text \<open>The loop from index \<open>i\<close> on: the argument is \<open>parts.slice(i)\<close>.\<close>

function parse_tokens :: "string list \<Rightarrow> QCloudCosOperations \<Rightarrow> QCloudCosOperations" where
  "parse_tokens [] ops = ops"
| "parse_tokens (token # rest) ops =
     (let step = parse_step token (case rest of [] \<Rightarrow> None | n # _ \<Rightarrow> Some n) ops
      in parse_tokens (if snd step then tl rest else rest) (fst step))"
  by pat_completeness auto
termination
  by (relation "measure (\<lambda>(parts, ops). length parts)") auto

declare parse_tokens.simps [simp del]

text \<open>\<open>/^imageMogr2\/?/\<close>\<close>

definition prefix_re :: regex where
  "prefix_re = Seq (Str ''imageMogr2'') (Opt (Str ''/''))"

definition parseImageMogr2 :: "string \<Rightarrow> QCloudCosOperations" where
  "parseImageMogr2 segment =
     (let ops = no_operations;
          stripped = rx_remove prefix_re segment
      in if stripped = [] then ops
         else parse_tokens (split_on (CHR ''/'') stripped) ops)"

section \<open>The pipeline extractor\<close>

record extraction =
  src :: string
  operations :: QCloudCosOperations
  options :: QCloudCosOptions
  pipelineSegments :: "string list"

text \<open>
  The \<open>for (const seg of segments)\<close> loop of \<open>extract\<close>: the state is \<open>pipelineSegments\<close>,
  \<open>operations\<close> and \<open>hasImageMogr2\<close>.
\<close>

fun extract_loop ::
  "string list \<Rightarrow> string list \<times> QCloudCosOperations \<times> bool
     \<Rightarrow> string list \<times> QCloudCosOperations \<times> bool" where
  "extract_loop [] st = st"
| "extract_loop (seg # segments) (pipelineSegments', operations', hasImageMogr2) =
     (if startsWith seg ''imageMogr2'' then
        (let parsed = parseImageMogr2 seg
         in extract_loop segments (pipelineSegments', spread operations' parsed, True))
      else extract_loop segments (pipelineSegments' @ [seg], operations', hasImageMogr2))"

text \<open>
  \<open>extract\<close> (named \<open>extract_url\<close> here) returns \<open>Inr None\<close> for \<open>null\<close> and \<open>Inl URIError\<close> when \<open>decodeURIComponent\<close>
  throws: that call is outside the \<open>try\<close> block.
\<close>

definition extract_url :: "(string \<Rightarrow> URL option) \<Rightarrow> url_like \<Rightarrow> error + extraction option" where
  "extract_url P url =
     (case to_URL P url of
        None \<Rightarrow> Inr None
      | Some u \<Rightarrow>
          if \<not> isCosUrl P (UObj u) then Inr None
          else (case decodeURIComponent (drop 1 (search u)) of
                  Inl e \<Rightarrow> Inl e
                | Inr rawQuery \<Rightarrow>
                    if rawQuery = [] then Inr None
                    else (let segments = split_on (CHR ''|'') rawQuery;
                              (pipelineSegments', operations', hasImageMogr2) =
                                 extract_loop segments ([], no_operations, False)
                          in if \<not> hasImageMogr2 \<and> length pipelineSegments' = 0 then Inr None
                             else Inr (Some \<lparr>src = origin u @ pathname u,
                                              operations = operations',
                                              options = no_operations,
                                              pipelineSegments = pipelineSegments'\<rparr>))))"

section \<open>The URL generator\<close>

text \<open>An omitted argument (\<open>options\<close>, \<open>pipelineSegments\<close>) is \<open>None\<close>.\<close>

definition generate ::
  "(string \<Rightarrow> URL option) \<Rightarrow> url_like \<Rightarrow> QCloudCosOperations \<Rightarrow> QCloudCosOptions option
     \<Rightarrow> string list option \<Rightarrow> string" where
  "generate P src' operations' options' pipelineSegments' =
     (case to_URL P src' of
        None \<Rightarrow> toString src'
      | Some u \<Rightarrow>
          if \<not> isCosUrl P (UObj u) then toString src'
          else
            (let baseUrl = origin u @ pathname u;
                 effectiveOps =
                   spread (case options' of None \<Rightarrow> no_operations | Some d \<Rightarrow> d) operations';
                 processing = buildImageMogr2 effectiveOps;
                 allSegments = [];
                 allSegments = (if processing \<noteq> [] then allSegments @ [processing]
                                else allSegments);
                 allSegments =
                   (case pipelineSegments' of
                      None \<Rightarrow> allSegments
                    | Some ps \<Rightarrow> if length ps \<noteq> 0 then allSegments @ ps else allSegments)
             in if length allSegments = 0 then baseUrl
                else baseUrl @ ''?'' @ join_with ''|'' allSegments))"

section \<open>The merge orchestrator\<close>

text \<open>\<open>if (operations.f !== undefined) merged.f = operations.f;\<close> for each of the 13 fields.\<close>

definition apply_defined ::
  "QCloudCosOperations \<Rightarrow> QCloudCosOperations \<Rightarrow> QCloudCosOperations" where
  "apply_defined operations' merged =
     (let merged = (case width operations' of
                      Some v \<Rightarrow> merged\<lparr>width := Some v\<rparr> | None \<Rightarrow> merged);
          merged = (case height operations' of
                      Some v \<Rightarrow> merged\<lparr>height := Some v\<rparr> | None \<Rightarrow> merged);
          merged = (case thumbnailMode operations' of
                      Some v \<Rightarrow> merged\<lparr>thumbnailMode := Some v\<rparr> | None \<Rightarrow> merged);
          merged = (case format operations' of
                      Some v \<Rightarrow> merged\<lparr>format := Some v\<rparr> | None \<Rightarrow> merged);
          merged = (case quality operations' of
                      Some v \<Rightarrow> merged\<lparr>quality := Some v\<rparr> | None \<Rightarrow> merged);
          merged = (case rquality operations' of
                      Some v \<Rightarrow> merged\<lparr>rquality := Some v\<rparr> | None \<Rightarrow> merged);
          merged = (case lquality operations' of
                      Some v \<Rightarrow> merged\<lparr>lquality := Some v\<rparr> | None \<Rightarrow> merged);
          merged = (case autoOrient operations' of
                      Some v \<Rightarrow> merged\<lparr>autoOrient := Some v\<rparr> | None \<Rightarrow> merged);
          merged = (case rotate_op operations' of
                      Some v \<Rightarrow> merged\<lparr>rotate_op := Some v\<rparr> | None \<Rightarrow> merged);
          merged = (case flip operations' of
                      Some v \<Rightarrow> merged\<lparr>flip := Some v\<rparr> | None \<Rightarrow> merged);
          merged = (case iradius operations' of
                      Some v \<Rightarrow> merged\<lparr>iradius := Some v\<rparr> | None \<Rightarrow> merged);
          merged = (case rradius operations' of
                      Some v \<Rightarrow> merged\<lparr>rradius := Some v\<rparr> | None \<Rightarrow> merged);
          merged = (case ignoreError operations' of
                      Some v \<Rightarrow> merged\<lparr>ignoreError := Some v\<rparr> | None \<Rightarrow> merged)
      in merged)"

definition transform ::
  "(string \<Rightarrow> URL option) \<Rightarrow> url_like \<Rightarrow> QCloudCosOperations \<Rightarrow> QCloudCosOptions option
     \<Rightarrow> error + string" where
  "transform P src' operations' options' =
     (case extract_url P src' of
        Inl e \<Rightarrow> Inl e
      | Inr None \<Rightarrow> Inr (generate P src' operations' options' None)
      | Inr (Some base) \<Rightarrow>
          (let merged =
                 spread (case options' of None \<Rightarrow> no_operations | Some d \<Rightarrow> d) (operations base);
               merged = apply_defined operations' merged
           in Inr (generate P (UStr (src base)) merged None (Some (pipelineSegments base)))))"

section \<open>A URL parser for plain https URLs\<close>

text \<open>
  The results of the platform's parser on the plain URLs of the examples below:
  \<open>https://\<close>, a lower-case host of letters, digits, dots and hyphens, a path of letters,
  digits, \<open>/\<close>, \<open>-\<close>, \<open>_\<close> and dots that follow a letter or a digit, then an optional query of
  printable ASCII without space and \<open>" # ' < >\<close>. On such a URL the parser changes nothing.
  Every other string is rejected here, though the platform accepts many of them.
\<close>

definition plain_URL :: "string \<Rightarrow> URL option" where
  "plain_URL s =
     (if \<not> startsWith s ''https://'' then None
      else
        (let r = drop 8 s;
             host = takeWhile (\<lambda>c. c \<in> set (lower_chars @ digit_chars @ ''.-'')) r;
             r1 = drop (length host) r;
             path = takeWhile (\<lambda>c. c \<noteq> CHR ''?'') r1;
             q = drop (length path) r1;
             word = lower_chars @ upper_chars @ digit_chars
         in if host = [] \<or> hd host \<in> set ''.-'' \<or> last host \<in> set ''.-''
               \<or> path = [] \<or> hd path \<noteq> CHR ''/''
               \<or> \<not> list_all (\<lambda>c. c \<in> set (word @ ''/-_.'')) path
               \<or> \<not> list_all (\<lambda>(c, d). d \<noteq> CHR ''.'' \<or> c \<in> set word) (zip path (tl path))
               \<or> \<not> list_all (\<lambda>c. 33 \<le> (of_char c :: nat) \<and> (of_char c :: nat) \<le> 126
                                  \<and> c \<notin> set [CHR 0x22, CHR 0x23, CHR 0x27, CHR 0x3C, CHR 0x3E]) q
            then None
            else Some \<lparr>href = s, origin = ''https://'' @ host, hostname = host,
                       pathname = path, search = (if length q \<le> 1 then [] else q)\<rparr>))"

section \<open>The behaviour that the specification describes\<close>

text \<open>
  The query that \<open>generate\<close> appends: the serialized segment when it is not empty, then the
  foreign segments, joined with \<open>|\<close>; no \<open>?\<close> when there is neither.
\<close>

definition with_query :: "string \<Rightarrow> string \<Rightarrow> string list \<Rightarrow> string" where
  "with_query baseUrl processing foreign =
     (let allSegments = (if processing = [] then [] else [processing]) @ foreign
      in if allSegments = [] then baseUrl else baseUrl @ ''?'' @ join_with ''|'' allSegments)"

text \<open>A token \<open>key/value\<close>, present exactly when the value is; a flag, present when true.\<close>

definition token :: "string \<Rightarrow> string option \<Rightarrow> string list" where
  "token key v = (case v of None \<Rightarrow> [] | Some s \<Rightarrow> [key @ ''/'' @ s])"

definition flag :: "string \<Rightarrow> bool option \<Rightarrow> string list" where
  "flag t b = (if b = Some True then [t] else [])"

text \<open>
  The resize token: present when width or height is; the sub-token is chosen by
  \<open>thumbnailMode\<close>, \<open>fit\<close> when absent; a missing dimension is the empty string.
\<close>

definition resize_token :: "QCloudCosOperations \<Rightarrow> string list" where
  "resize_token ops =
     (if width ops = None \<and> height ops = None then []
      else (let wxh = dimension (width ops) @ ''x'' @ dimension (height ops)
            in case thumbnailMode ops of
                 None \<Rightarrow> [''thumbnail/'' @ wxh]
               | Some Fit \<Rightarrow> [''thumbnail/'' @ wxh]
               | Some Cover \<Rightarrow> [''crop/'' @ wxh]
               | Some Force \<Rightarrow> [''thumbnail/'' @ wxh @ ''!'']
               | Some ShrinkOnly \<Rightarrow> [''thumbnail/'' @ wxh @ ''>'']
               | Some EnlargeOnly \<Rightarrow> [''thumbnail/'' @ wxh @ ''<'']))"

text \<open>
  The tokens in the fixed order of the specification. The format token is a parameter: the
  specification has it present exactly when the field is.
\<close>

definition ordered_tokens :: "string list \<Rightarrow> QCloudCosOperations \<Rightarrow> string list" where
  "ordered_tokens format_token ops =
     resize_token ops
     @ token ''iradius'' (map_option number_to_string (iradius ops))
     @ token ''rradius'' (map_option number_to_string (rradius ops))
     @ flag ''auto-orient'' (autoOrient ops)
     @ token ''rotate'' (map_option number_to_string (rotate_op ops))
     @ token ''flip'' (map_option flip_name (flip ops))
     @ format_token
     @ token ''quality'' (map_option quality_to_string (quality ops))
     @ token ''rquality'' (map_option number_to_string (rquality ops))
     @ token ''lquality'' (map_option number_to_string (lquality ops))
     @ flag ''ignore-error/1'' (ignoreError ops)"

text \<open>
  The serializer as the specification states it: the empty string when no field is set,
  otherwise the keyword, \<open>/\<close> and the tokens joined with \<open>/\<close>.
\<close>

definition serialize_as_stated :: "QCloudCosOperations \<Rightarrow> string" where
  "serialize_as_stated ops =
     (if ops = no_operations then []
      else ''imageMogr2/'' @ join_with ''/'' (ordered_tokens (token ''format'' (format ops)) ops))"

text \<open>
  The serializer as the code has it: the format token is present when the format is a
  non-empty string, and the result is empty when no token is produced.
\<close>

definition serialize_tokens :: "QCloudCosOperations \<Rightarrow> string list" where
  "serialize_tokens ops =
     ordered_tokens (token ''format'' (if format ops = Some [] then None else format ops)) ops"

section \<open>Fixtures\<close>

text \<open>The URLs of the test suite.\<close>

definition BASE_URL :: string where
  "BASE_URL = ''https://examplebucket-1250000000.cos.ap-beijing.myqcloud.com/photo.jpg''"

definition NON_COS_URL :: string where
  "NON_COS_URL = ''https://example.com/photo.jpg''"

definition BASE_URL_object :: URL where
  "BASE_URL_object =
     \<lparr>href = BASE_URL, origin = ''https://examplebucket-1250000000.cos.ap-beijing.myqcloud.com'',
      hostname = ''examplebucket-1250000000.cos.ap-beijing.myqcloud.com'',
      pathname = ''/photo.jpg'', search = []\<rparr>"

text \<open>A segment is owned by the dialect when it starts with the namespace keyword.\<close>

definition is_dialect :: "string \<Rightarrow> bool" where
  "is_dialect seg = startsWith seg ''imageMogr2''"

text \<open>
  Last write wins, per field: the value of a field is the one given by the last operation
  set of the sequence that sets that field.
\<close>

definition last_write ::
  "(QCloudCosOperations \<Rightarrow> 'a option) \<Rightarrow> QCloudCosOperations list \<Rightarrow> 'a option" where
  "last_write f os = (case filter (\<lambda>v. v \<noteq> None) (map f os) of [] \<Rightarrow> None | vs \<Rightarrow> last vs)"

definition merge_last_wins :: "QCloudCosOperations list \<Rightarrow> QCloudCosOperations" where
  "merge_last_wins os =
     \<lparr>width = last_write width os, height = last_write height os,
      format = last_write format os, quality = last_write quality os,
      thumbnailMode = last_write thumbnailMode os, autoOrient = last_write autoOrient os,
      rotate_op = last_write rotate_op os, flip = last_write flip os,
      iradius = last_write iradius os, rradius = last_write rradius os,
      rquality = last_write rquality os, lquality = last_write lquality os,
      ignoreError = last_write ignoreError os\<rparr>"

text \<open>
  Precedence: the override \<open>v\<close> when it is defined, otherwise the existing value \<open>e\<close> when
  it is defined, otherwise the default \<open>d\<close>.
\<close>

definition pick :: "'a option \<Rightarrow> 'a option \<Rightarrow> 'a option \<Rightarrow> 'a option" where
  "pick v e d =
     (case v of Some x \<Rightarrow> Some x | None \<Rightarrow> (case e of Some y \<Rightarrow> Some y | None \<Rightarrow> d))"

definition layered ::
  "QCloudCosOptions \<Rightarrow> QCloudCosOperations \<Rightarrow> QCloudCosOperations \<Rightarrow> QCloudCosOperations" where
  "layered D E V =
     \<lparr>width = pick (width V) (width E) (width D),
      height = pick (height V) (height E) (height D),
      format = pick (format V) (format E) (format D),
      quality = pick (quality V) (quality E) (quality D),
      thumbnailMode = pick (thumbnailMode V) (thumbnailMode E) (thumbnailMode D),
      autoOrient = pick (autoOrient V) (autoOrient E) (autoOrient D),
      rotate_op = pick (rotate_op V) (rotate_op E) (rotate_op D),
      flip = pick (flip V) (flip E) (flip D),
      iradius = pick (iradius V) (iradius E) (iradius D),
      rradius = pick (rradius V) (rradius E) (rradius D),
      rquality = pick (rquality V) (rquality E) (rquality D),
      lquality = pick (lquality V) (lquality E) (lquality D),
      ignoreError = pick (ignoreError V) (ignoreError E) (ignoreError D)\<rparr>"

text \<open>The options when the argument is omitted: no defaults.\<close>

definition defaults :: "QCloudCosOptions option \<Rightarrow> QCloudCosOptions" where
  "defaults D = (case D of None \<Rightarrow> no_operations | Some d \<Rightarrow> d)"

text \<open>
  \<open>transform\<close> hands the base URL that \<open>extract\<close> returned, a string, to \<open>generate\<close>, which
  parses it again. The URL constructor reads the origin and path of an http or https URL
  back as the same host, origin and path; this is that property of the parser at \<open>s\<close>.
\<close>

definition parses_to_itself :: "(string \<Rightarrow> URL option) \<Rightarrow> string \<Rightarrow> bool" where
  "parses_to_itself P s =
     (case P s of
        None \<Rightarrow> False
      | Some u \<Rightarrow> rx_test COS_HOSTNAME_RE (hostname u) \<and> origin u @ pathname u = s)"

text \<open>A processed URL of the test suite, with two dialect segments and a foreign one.\<close>

definition PIPELINE_QUERY :: string where
  "PIPELINE_QUERY = ''imageMogr2/thumbnail/200x|imageMogr2/format/jpg|watermark/2/text/dGVzdA==''"

definition PIPELINE_URL_object :: URL where
  "PIPELINE_URL_object =
     \<lparr>href = BASE_URL @ ''?'' @ PIPELINE_QUERY,
      origin = ''https://examplebucket-1250000000.cos.ap-beijing.myqcloud.com'',
      hostname = ''examplebucket-1250000000.cos.ap-beijing.myqcloud.com'',
      pathname = ''/photo.jpg'', search = ''?'' @ PIPELINE_QUERY\<rparr>"

text \<open>What \<open>extract\<close> returns for that URL.\<close>

definition PIPELINE_extraction :: extraction where
  "PIPELINE_extraction =
     \<lparr>src = BASE_URL,
      operations = no_operations\<lparr>width := Some (Fin 200), format := Some ''jpg''\<rparr>,
      options = no_operations,
      pipelineSegments = [''watermark/2/text/dGVzdA=='']\<rparr>"

text \<open>A processed URL with both flags set and a foreign segment.\<close>

definition FLAGS_URL :: string where
  "FLAGS_URL = BASE_URL @ ''?imageMogr2/auto-orient/format/webp/ignore-error/1|watermark/2''"

definition FLAGS_extraction :: extraction where
  "FLAGS_extraction =
     \<lparr>src = BASE_URL,
      operations = no_operations\<lparr>format := Some ''webp'', autoOrient := Some True,
                                 ignoreError := Some True\<rparr>,
      options = no_operations,
      pipelineSegments = [''watermark/2'']\<rparr>"


text \<open>
  The numbers that the dialect carries: integers of magnitude below \<open>2^53\<close>, which a double
  holds exactly and which print as plain decimal digits; a width or height is such an
  integer that is not negative.
\<close>

definition is_integer :: "number \<Rightarrow> bool" where
  "is_integer n = (case n of Fin q \<Rightarrow> of_int \<lfloor>q\<rfloor> = q \<and> \<bar>q\<bar> < 2 ^ 53 | _ \<Rightarrow> False)"

definition is_count :: "number \<Rightarrow> bool" where
  "is_count n = (case n of Fin q \<Rightarrow> of_int \<lfloor>q\<rfloor> = q \<and> 0 \<le> q \<and> q < 2 ^ 53 | _ \<Rightarrow> False)"

text \<open>A condition on an optional field: it holds when the field is absent.\<close>

definition when_set :: "('a \<Rightarrow> bool) \<Rightarrow> 'a option \<Rightarrow> bool" where
  "when_set p v = (case v of None \<Rightarrow> True | Some x \<Rightarrow> p x)"

text \<open>
  The operation sets that survive a round trip: width and height are counts, the other
  numbers are integers; \<open>thumbnailMode\<close> is not \<open>fit\<close> and comes with a width or a height;
  the format is not empty and has no \<open>/\<close>; a quality string has no \<open>/\<close> and does not read
  as a number; a flag that is present is true.
\<close>

definition round_trips :: "QCloudCosOperations \<Rightarrow> bool" where
  "round_trips ops =
     (when_set is_count (width ops) \<and> when_set is_count (height ops)
      \<and> when_set (\<lambda>m. m \<noteq> Fit \<and> (width ops \<noteq> None \<or> height ops \<noteq> None)) (thumbnailMode ops)
      \<and> when_set (\<lambda>f. f \<noteq> [] \<and> CHR ''/'' \<notin> set f) (format ops)
      \<and> when_set (\<lambda>q. case q of QNum n \<Rightarrow> is_integer n
                               | QStr s \<Rightarrow> CHR ''/'' \<notin> set s \<and> isNaN (Number s)) (quality ops)
      \<and> when_set (\<lambda>b. b) (autoOrient ops) \<and> when_set (\<lambda>b. b) (ignoreError ops)
      \<and> when_set is_integer (rotate_op ops)
      \<and> when_set is_integer (iradius ops) \<and> when_set is_integer (rradius ops)
      \<and> when_set is_integer (rquality ops) \<and> when_set is_integer (lquality ops))"

text \<open>The tokens of the serialized segment, split at every \<open>/\<close>.\<close>

definition flat_tokens :: "QCloudCosOperations \<Rightarrow> string list" where
  "flat_tokens ops = concat (map (split_on (CHR ''/'')) (build_parts ops))"

text \<open>The tokens that the parser scans, group by group: a keyword and its argument, or a flag.\<close>

definition arg_tokens :: "string \<Rightarrow> string option \<Rightarrow> string list" where
  "arg_tokens key v = (case v of None \<Rightarrow> [] | Some s \<Rightarrow> [key, s])"

definition flag_tokens :: "string list \<Rightarrow> bool option \<Rightarrow> string list" where
  "flag_tokens ts b = (if b = Some True then ts else [])"

definition resize_tokens :: "QCloudCosOperations \<Rightarrow> string list" where
  "resize_tokens ops =
     (if width ops = None \<and> height ops = None then []
      else (let wxh = dimension (width ops) @ ''x'' @ dimension (height ops)
            in case thumbnailMode ops of
                 None \<Rightarrow> [''thumbnail'', wxh]
               | Some Fit \<Rightarrow> [''thumbnail'', wxh]
               | Some Cover \<Rightarrow> [''crop'', wxh]
               | Some Force \<Rightarrow> [''thumbnail'', wxh @ ''!'']
               | Some ShrinkOnly \<Rightarrow> [''thumbnail'', wxh @ ''>'']
               | Some EnlargeOnly \<Rightarrow> [''thumbnail'', wxh @ ''<'']))"




text \<open>
  An operation set with every kind of field, the forced quality string among them, and one
  that names the default mode \<open>fit\<close>.
\<close>

definition FULL_operations :: QCloudCosOperations where
  "FULL_operations =
     \<lparr>width = Some (Fin 400), height = Some (Fin 300), format = Some ''webp'',
      quality = Some (QStr ''90!''), thumbnailMode = Some Force, autoOrient = Some True,
      rotate_op = Some (Fin 90), flip = Some Horizontal, iradius = Some (Fin 50),
      rradius = Some (Fin 10), rquality = Some (Fin 80), lquality = Some (Fin 70),
      ignoreError = Some True\<rparr>"

definition FIT_operations :: QCloudCosOperations where
  "FIT_operations = no_operations\<lparr>width := Some (Fin 400), thumbnailMode := Some Fit\<rparr>"

section \<open>Properties of the generator and the serializer\<close>

lemma isCosUrl_UObj: "isCosUrl P (UObj u) = rx_test COS_HOSTNAME_RE (hostname u)"
  by (simp add: isCosUrl_def)

lemma generate_not_cos: "\<not> isCosUrl P url \<Longrightarrow> generate P url ops opts segs = toString url"
  by (auto simp: generate_def isCosUrl_def split: option.splits)

lemma generate_cos:
  assumes "to_URL P url = Some u" and "rx_test COS_HOSTNAME_RE (hostname u)"
  shows "generate P url ops opts segs =
         with_query (origin u @ pathname u)
           (buildImageMogr2 (spread (case opts of None \<Rightarrow> no_operations | Some d \<Rightarrow> d) ops))
           (case segs of None \<Rightarrow> [] | Some ps \<Rightarrow> ps)"
proof -
  have "isCosUrl P (UObj u)" using assms(2) by (simp add: isCosUrl_def)
  then show ?thesis using assms(1)
    by (cases segs) (simp_all add: generate_def with_query_def Let_def)
qed

lemma extract_not_cos: "\<not> isCosUrl P url \<Longrightarrow> extract_url P url = Inr None"
  by (auto simp: extract_url_def isCosUrl_def split: option.splits)

lemma over_None [simp]: "over a None = a" "over None b = b"
  by (simp_all add: over_def split: option.splits)

lemma over_Some [simp]: "over a (Some v) = Some v"
  by (simp add: over_def)

lemma spread_no_operations [simp]: "spread no_operations ops = ops"
  by (simp add: spread_def no_operations_def)

lemma BASE_URL_parsed: "plain_URL BASE_URL = Some BASE_URL_object"
  by code_simp

lemma BASE_URL_is_cos: "rx_test COS_HOSTNAME_RE (hostname BASE_URL_object)"
  by code_simp

lemma NON_COS_URL_is_not_cos: "\<not> isCosUrl plain_URL (UStr NON_COS_URL)"
  by code_simp

text \<open>Each \<open>push\<close> appends to what is there: the array is a concatenation.\<close>

lemma push_option:
  "(case v of Some n \<Rightarrow> ps @ h n | None \<Rightarrow> ps) = ps @ (case v of None \<Rightarrow> [] | Some n \<Rightarrow> h n)"
  by (cases v) simp_all

lemma push_if: "(if b then ps @ [t] else ps) = ps @ (if b then [t] else [])"
  by simp

lemma push_mode:
  "(case m of Cover \<Rightarrow> ps @ [a] | Force \<Rightarrow> ps @ [b] | ShrinkOnly \<Rightarrow> ps @ [c]
      | EnlargeOnly \<Rightarrow> ps @ [d] | Fit \<Rightarrow> ps @ [e])
   = ps @ [case m of Cover \<Rightarrow> a | Force \<Rightarrow> b | ShrinkOnly \<Rightarrow> c | EnlargeOnly \<Rightarrow> d | Fit \<Rightarrow> e]"
  by (cases m) simp_all

lemma resize_token_alt:
  "resize_token ops =
     (if width ops \<noteq> None \<or> height ops \<noteq> None
      then [case (case thumbnailMode ops of None \<Rightarrow> Fit | Some m \<Rightarrow> m) of
              Cover \<Rightarrow> ''crop/'' @ dimension (width ops) @ ''x'' @ dimension (height ops)
            | Force \<Rightarrow> ''thumbnail/'' @ dimension (width ops) @ ''x'' @ dimension (height ops) @ ''!''
            | ShrinkOnly \<Rightarrow> ''thumbnail/'' @ dimension (width ops) @ ''x'' @ dimension (height ops) @ ''>''
            | EnlargeOnly \<Rightarrow> ''thumbnail/'' @ dimension (width ops) @ ''x'' @ dimension (height ops) @ ''<''
            | Fit \<Rightarrow> ''thumbnail/'' @ dimension (width ops) @ ''x'' @ dimension (height ops)]
      else [])"
  by (simp add: resize_token_def Let_def split: option.splits QCloudCosThumbnailMode.splits)

lemma token_map:
  "token key (map_option f v) = (case v of None \<Rightarrow> [] | Some n \<Rightarrow> [key @ ''/'' @ f n])"
  by (cases v) (simp_all add: token_def)

lemma token_format:
  "token key (if v = Some [] then None else v)
   = (case v of None \<Rightarrow> [] | Some f \<Rightarrow> if f \<noteq> [] then [key @ ''/'' @ f] else [])"
  by (cases v) (simp_all add: token_def)

lemma build_parts_concat:
  "build_parts ops =
     (if width ops \<noteq> None \<or> height ops \<noteq> None
      then [case (case thumbnailMode ops of None \<Rightarrow> Fit | Some m \<Rightarrow> m) of
              Cover \<Rightarrow> ''crop/'' @ dimension (width ops) @ ''x'' @ dimension (height ops)
            | Force \<Rightarrow> ''thumbnail/'' @ dimension (width ops) @ ''x'' @ dimension (height ops) @ ''!''
            | ShrinkOnly \<Rightarrow> ''thumbnail/'' @ dimension (width ops) @ ''x'' @ dimension (height ops) @ ''>''
            | EnlargeOnly \<Rightarrow> ''thumbnail/'' @ dimension (width ops) @ ''x'' @ dimension (height ops) @ ''<''
            | Fit \<Rightarrow> ''thumbnail/'' @ dimension (width ops) @ ''x'' @ dimension (height ops)]
      else [])
     @ (case iradius ops of None \<Rightarrow> [] | Some n \<Rightarrow> [''iradius/'' @ number_to_string n])
     @ (case rradius ops of None \<Rightarrow> [] | Some n \<Rightarrow> [''rradius/'' @ number_to_string n])
     @ (if autoOrient ops = Some True then [''auto-orient''] else [])
     @ (case rotate_op ops of None \<Rightarrow> [] | Some n \<Rightarrow> [''rotate/'' @ number_to_string n])
     @ (case flip ops of None \<Rightarrow> [] | Some d \<Rightarrow> [''flip/'' @ flip_name d])
     @ (case format ops of
          None \<Rightarrow> [] | Some f \<Rightarrow> if f \<noteq> [] then [''format/'' @ f] else [])
     @ (case quality ops of None \<Rightarrow> [] | Some q \<Rightarrow> [''quality/'' @ quality_to_string q])
     @ (case rquality ops of None \<Rightarrow> [] | Some n \<Rightarrow> [''rquality/'' @ number_to_string n])
     @ (case lquality ops of None \<Rightarrow> [] | Some n \<Rightarrow> [''lquality/'' @ number_to_string n])
     @ (if ignoreError ops = Some True then [''ignore-error/1''] else [])"
  unfolding build_parts_def
  by (simp only: push_option push_if push_mode Let_def append_Nil append_assoc)

lemma build_parts_tokens: "build_parts ops = serialize_tokens ops"
  unfolding build_parts_concat serialize_tokens_def ordered_tokens_def token_map token_format
    resize_token_alt flag_def
  by (simp cong: option.case_cong if_cong)

lemma build_mode_alone: "buildImageMogr2 (no_operations\<lparr>thumbnailMode := m\<rparr>) = []"
  by (simp add: buildImageMogr2_def build_parts_concat no_operations_def)

text \<open>
  C7, as amended. \<open>buildImageMogr2\<close> returns the empty string when no token is produced, and
  otherwise \<open>imageMogr2/\<close> followed by the tokens joined with \<open>/\<close>, in the fixed order
  resize or crop (chosen by \<open>thumbnailMode\<close>, \<open>fit\<close> when absent, a missing width or height
  rendered as the empty string), iradius, rradius, auto-orient, rotate, flip, format, quality,
  rquality, lquality, ignore-error/1. The resize token is present when width or height is,
  a numeric token, the flip token and the quality token when the field is, a flag when the
  field is true, and the format token when the format is a non-empty string.
\<close>

theorem buildImageMogr2_fixed_order:
  "buildImageMogr2 ops =
     (if serialize_tokens ops = [] then []
      else ''imageMogr2/'' @ join_with ''/'' (serialize_tokens ops))"
  by (simp add: buildImageMogr2_def build_parts_tokens)

text \<open>
  C7 as stated fails: with \<open>thumbnailMode\<close> as the only field, a field is set and the
  serializer still returns the empty string, not the keyword and \<open>/\<close>.
\<close>

theorem buildImageMogr2_as_stated_counterexample:
  "buildImageMogr2 (no_operations\<lparr>thumbnailMode := Some Cover\<rparr>)
   \<noteq> serialize_as_stated (no_operations\<lparr>thumbnailMode := Some Cover\<rparr>)"
proof -
  have "serialize_as_stated (no_operations\<lparr>thumbnailMode := Some Cover\<rparr>) \<noteq> []"
    by (simp add: serialize_as_stated_def no_operations_def)
  then show ?thesis
    by (simp only: build_mode_alone) simp
qed

text \<open>
  C9. With \<open>thumbnailMode\<close> as the only field, \<open>buildImageMogr2\<close> returns the empty string,
  and \<open>generate\<close> on a COS URL, without options and without pipeline segments (omitted or
  empty), returns the base URL, origin and path, with no query.
\<close>

theorem thumbnailMode_alone_builds_nothing:
  assumes "to_URL P url = Some u" and "rx_test COS_HOSTNAME_RE (hostname u)"
  shows "buildImageMogr2 (no_operations\<lparr>thumbnailMode := Some m\<rparr>) = []
         \<and> generate P url (no_operations\<lparr>thumbnailMode := Some m\<rparr>) None None
             = origin u @ pathname u
         \<and> generate P url (no_operations\<lparr>thumbnailMode := Some m\<rparr>) None (Some [])
             = origin u @ pathname u"
  by (simp add: generate_cos [OF assms] build_mode_alone with_query_def)

theorem thumbnailMode_alone_builds_nothing_witness:
  "to_URL plain_URL (UStr BASE_URL) = Some BASE_URL_object
   \<and> rx_test COS_HOSTNAME_RE (hostname BASE_URL_object)
   \<and> buildImageMogr2 (no_operations\<lparr>thumbnailMode := Some Cover\<rparr>) = []
   \<and> generate plain_URL (UStr BASE_URL) (no_operations\<lparr>thumbnailMode := Some Cover\<rparr>) None None
       = BASE_URL
   \<and> generate plain_URL (UStr BASE_URL) (no_operations\<lparr>thumbnailMode := Some Cover\<rparr>) None
         (Some []) = BASE_URL"
proof -
  have h1: "to_URL plain_URL (UStr BASE_URL) = Some BASE_URL_object"
    by (simp add: BASE_URL_parsed)
  have b: "origin BASE_URL_object @ pathname BASE_URL_object = BASE_URL"
    by (simp add: BASE_URL_object_def BASE_URL_def)
  show ?thesis
    using thumbnailMode_alone_builds_nothing [OF h1 BASE_URL_is_cos, of Cover] h1 BASE_URL_is_cos b
    by simp
qed

text \<open>
  C6. When the hostname does not match the pattern, or the string does not parse, \<open>generate\<close>
  returns the input stringified and unchanged, and so does \<open>transform\<close>.
\<close>

theorem non_cos_pass_through:
  assumes "\<not> isCosUrl P url"
  shows "generate P url ops opts segs = toString url
         \<and> transform P url ops opts = Inr (toString url)"
  using assms by (simp add: transform_def extract_not_cos generate_not_cos)

theorem non_cos_pass_through_witness:
  "\<not> isCosUrl plain_URL (UStr NON_COS_URL)
   \<and> generate plain_URL (UStr NON_COS_URL) (no_operations\<lparr>width := Some (Fin 10)\<rparr>) None None
       = NON_COS_URL
   \<and> transform plain_URL (UStr NON_COS_URL) (no_operations\<lparr>width := Some (Fin 10)\<rparr>) None
       = Inr NON_COS_URL"
  using non_cos_pass_through [OF NON_COS_URL_is_not_cos,
      of "no_operations\<lparr>width := Some (Fin 10)\<rparr>" None None]
    NON_COS_URL_is_not_cos
  by simp

section \<open>Properties of the parser\<close>

lemma remove_prefix:
  "rx_remove prefix_re (''imageMogr2'' @ s) = (if startsWith s ''/'' then drop 1 s else s)"
  by (simp add: rx_remove_def prefix_re_def startsWith_def)

lemma startsWith_slash: "startsWith s ''/'' = (\<exists>cs. s = CHR ''/'' # cs)"
  by (cases s) (auto simp: startsWith_def)

lemma parse_step_empty_token: "parse_step [] next ops = (ops, False)"
  by (simp add: parse_step_def)

lemma parse_tokens_empty_token: "parse_tokens ([] # rest) ops = parse_tokens rest ops"
  by (simp add: parse_tokens.simps parse_step_empty_token)

text \<open>
  C8. \<open>parseImageMogr2\<close> strips the prefix \<open>imageMogr2\<close> with or without the slash after
  it: for every \<open>s\<close>, the string \<open>imageMogr2\<close> followed directly by \<open>s\<close> parses to the same
  operation set as \<open>imageMogr2/\<close> followed by \<open>s\<close>.
\<close>

theorem prefix_without_slash:
  "parseImageMogr2 (''imageMogr2'' @ s) = parseImageMogr2 (''imageMogr2/'' @ s)"
proof (cases "startsWith s ''/''")
  case False
  have "rx_remove prefix_re (''imageMogr2/'' @ s) = s"
    using remove_prefix [of "CHR ''/'' # s"] by (simp add: startsWith_def)
  moreover have "rx_remove prefix_re (''imageMogr2'' @ s) = s"
    using False by (simp only: remove_prefix if_False)
  ultimately show ?thesis by (simp only: parseImageMogr2_def)
next
  case True
  then obtain cs where s: "s = CHR ''/'' # cs" by (auto simp: startsWith_slash)
  have l: "rx_remove prefix_re (''imageMogr2'' @ s) = cs"
    using True by (simp only: remove_prefix if_True) (simp add: s)
  have r: "rx_remove prefix_re (''imageMogr2/'' @ s) = CHR ''/'' # cs"
    using remove_prefix [of "CHR ''/'' # s"] by (simp add: startsWith_def s)
  show ?thesis
    unfolding parseImageMogr2_def l r
    by (cases cs) (simp_all add: Let_def parse_tokens_empty_token parse_tokens.simps(1))
qed

theorem prefix_without_slash_witness:
  "parseImageMogr2 ''imageMogr2format/webp'' = parseImageMogr2 ''imageMogr2/format/webp''
   \<and> parseImageMogr2 ''imageMogr2format/webp'' = no_operations\<lparr>format := Some ''webp''\<rparr>"
proof -
  have "parseImageMogr2 ''imageMogr2format/webp'' = no_operations\<lparr>format := Some ''webp''\<rparr>"
    by code_simp
  then show ?thesis
    using prefix_without_slash [of "''format/webp''"] by simp
qed

section \<open>Properties of the extractor\<close>

lemma extract_loop_filter:
  "extract_loop segs (ps, ops, has) =
     (ps @ filter (\<lambda>s. \<not> is_dialect s) segs,
      foldl spread ops (map parseImageMogr2 (filter is_dialect segs)),
      has \<or> (\<exists>s\<in>set segs. is_dialect s))"
  by (induction segs arbitrary: ps ops has) (auto simp: is_dialect_def Let_def)

lemma split_on_not_Nil [simp]: "split_on c s \<noteq> []"
  by (induction s) (auto split: list.splits)

lemma filter_both_empty: "xs \<noteq> [] \<Longrightarrow> filter (\<lambda>s. \<not> Q s) xs = [] \<Longrightarrow> \<exists>s\<in>set xs. Q s"
  by (induction xs) (auto split: if_splits)

lemma extract_cos:
  assumes "to_URL P url = Some u" and "rx_test COS_HOSTNAME_RE (hostname u)"
  "decodeURIComponent (drop 1 (search u)) = Inr q" and "q \<noteq> []"
  shows "extract_url P url =
         Inr (Some \<lparr>src = origin u @ pathname u,
                    operations = foldl spread no_operations
                       (map parseImageMogr2 (filter is_dialect (split_on (CHR ''|'') q))),
                    options = no_operations,
                    pipelineSegments = filter (\<lambda>s. \<not> is_dialect s) (split_on (CHR ''|'') q)\<rparr>)"
proof -
  have cos: "isCosUrl P (UObj u)" using assms(2) by (simp add: isCosUrl_def)
  have "filter (\<lambda>s. \<not> is_dialect s) (split_on (CHR ''|'') q) = []
        \<Longrightarrow> \<exists>s\<in>set (split_on (CHR ''|'') q). is_dialect s"
    by (rule filter_both_empty) simp_all
  then show ?thesis
    using assms(1,3,4) cos
    by (auto simp: extract_url_def Let_def extract_loop_filter)
qed

lemma last_write_snoc:
  "last_write f (os @ [x]) = over (last_write f os) (f x)"
proof (cases "f x")
  case None
  then show ?thesis by (simp add: last_write_def)
next
  case (Some a)
  have "(case xs @ [Some a] of [] \<Rightarrow> None | vs \<Rightarrow> last vs) = Some a" for xs :: "'a option list"
    by (cases "xs @ [Some a]") (simp, metis last_snoc list.simps(5))
  then show ?thesis using Some by (simp add: last_write_def)
qed

lemma foldl_spread_field:
  assumes "\<And>a b. f (spread a b) = over (f a) (f b)"
  shows "f (foldl spread a os) = over (f a) (last_write f os)"
proof (induction os rule: rev_induct)
  case Nil
  then show ?case by (simp add: last_write_def)
next
  case (snoc x xs)
  then show ?case
    by (simp add: assms last_write_snoc over_def split: option.splits)
qed

lemma foldl_spread_fields:
  "width (foldl spread a os) = over (width a) (last_write width os)"
  "height (foldl spread a os) = over (height a) (last_write height os)"
  "format (foldl spread a os) = over (format a) (last_write format os)"
  "quality (foldl spread a os) = over (quality a) (last_write quality os)"
  "thumbnailMode (foldl spread a os) = over (thumbnailMode a) (last_write thumbnailMode os)"
  "autoOrient (foldl spread a os) = over (autoOrient a) (last_write autoOrient os)"
  "rotate_op (foldl spread a os) = over (rotate_op a) (last_write rotate_op os)"
  "flip (foldl spread a os) = over (flip a) (last_write flip os)"
  "iradius (foldl spread a os) = over (iradius a) (last_write iradius os)"
  "rradius (foldl spread a os) = over (rradius a) (last_write rradius os)"
  "rquality (foldl spread a os) = over (rquality a) (last_write rquality os)"
  "lquality (foldl spread a os) = over (lquality a) (last_write lquality os)"
  "ignoreError (foldl spread a os) = over (ignoreError a) (last_write ignoreError os)"
  by (rule foldl_spread_field, simp add: spread_def)+

lemma no_operations_fields [simp]:
  "width no_operations = None" "height no_operations = None" "format no_operations = None"
  "quality no_operations = None" "thumbnailMode no_operations = None"
  "autoOrient no_operations = None" "rotate_op no_operations = None"
  "flip no_operations = None" "iradius no_operations = None" "rradius no_operations = None"
  "rquality no_operations = None" "lquality no_operations = None"
  "ignoreError no_operations = None"
  by (simp_all add: no_operations_def)

lemma foldl_spread_last_wins:
  "foldl spread no_operations os = merge_last_wins os"
  by (rule QCloudCosOperations.equality)
     (simp_all add: merge_last_wins_def foldl_spread_fields)

lemma PIPELINE_URL_parsed:
  "plain_URL (BASE_URL @ ''?'' @ PIPELINE_QUERY) = Some PIPELINE_URL_object"
  by code_simp

lemma PIPELINE_URL_is_cos: "rx_test COS_HOSTNAME_RE (hostname PIPELINE_URL_object)"
  by code_simp

lemma PIPELINE_QUERY_decoded:
  "decodeURIComponent (drop 1 (search PIPELINE_URL_object)) = Inr PIPELINE_QUERY"
  by code_simp

lemma PIPELINE_QUERY_segments:
  "split_on (CHR ''|'') PIPELINE_QUERY
   = [''imageMogr2/thumbnail/200x'', ''imageMogr2/format/jpg'', ''watermark/2/text/dGVzdA=='']"
  by code_simp

lemma PIPELINE_QUERY_operations:
  "merge_last_wins (map parseImageMogr2
     (filter is_dialect [''imageMogr2/thumbnail/200x'', ''imageMogr2/format/jpg'',
                         ''watermark/2/text/dGVzdA=='']))
   = no_operations\<lparr>width := Some (Fin 200), format := Some ''jpg''\<rparr>"
  by code_simp

lemma PIPELINE_QUERY_foreign:
  "filter (\<lambda>s. \<not> is_dialect s) [''imageMogr2/thumbnail/200x'', ''imageMogr2/format/jpg'',
                         ''watermark/2/text/dGVzdA==''] = [''watermark/2/text/dGVzdA=='']"
  by code_simp

text \<open>
  C3. For a COS URL whose query decodes to a non-empty string, \<open>extract\<close> splits the
  decoded query on \<open>|\<close>, parses every segment that starts with \<open>imageMogr2\<close> and merges
  the results field by field, the last segment that sets a field winning; it keeps the other
  segments as they are and in their order in \<open>pipelineSegments\<close>; and \<open>src\<close> is the origin
  followed by the path.
\<close>

theorem extract_merges_segments:
  assumes "to_URL P url = Some u" and "rx_test COS_HOSTNAME_RE (hostname u)"
    and "decodeURIComponent (drop 1 (search u)) = Inr q" and "q \<noteq> []"
  shows "extract_url P url =
         Inr (Some \<lparr>src = origin u @ pathname u,
                    operations = merge_last_wins
                       (map parseImageMogr2 (filter is_dialect (split_on (CHR ''|'') q))),
                    options = no_operations,
                    pipelineSegments = filter (\<lambda>s. \<not> is_dialect s) (split_on (CHR ''|'') q)\<rparr>)"
  using extract_cos [OF assms] by (simp add: foldl_spread_last_wins)

theorem extract_merges_segments_witness:
  "to_URL plain_URL (UStr (BASE_URL @ ''?'' @ PIPELINE_QUERY)) = Some PIPELINE_URL_object
   \<and> rx_test COS_HOSTNAME_RE (hostname PIPELINE_URL_object)
   \<and> decodeURIComponent (drop 1 (search PIPELINE_URL_object)) = Inr PIPELINE_QUERY
   \<and> PIPELINE_QUERY \<noteq> []
   \<and> extract_url plain_URL (UStr (BASE_URL @ ''?'' @ PIPELINE_QUERY)) =
       Inr (Some \<lparr>src = BASE_URL,
                  operations = no_operations\<lparr>width := Some (Fin 200), format := Some ''jpg''\<rparr>,
                  options = no_operations,
                  pipelineSegments = [''watermark/2/text/dGVzdA=='']\<rparr>)"
proof -
  have h1: "to_URL plain_URL (UStr (BASE_URL @ ''?'' @ PIPELINE_QUERY)) = Some PIPELINE_URL_object"
    using PIPELINE_URL_parsed by simp
  have h4: "PIPELINE_QUERY \<noteq> []"
    by (simp add: PIPELINE_QUERY_def)
  have b: "origin PIPELINE_URL_object @ pathname PIPELINE_URL_object = BASE_URL"
    by (simp add: PIPELINE_URL_object_def BASE_URL_def)
  show ?thesis
    using extract_merges_segments [OF h1 PIPELINE_URL_is_cos PIPELINE_QUERY_decoded h4]
      h1 PIPELINE_URL_is_cos PIPELINE_QUERY_decoded h4
    by (simp only: PIPELINE_QUERY_segments PIPELINE_QUERY_operations PIPELINE_QUERY_foreign b)
       simp
qed

text \<open>
  C5 fails in \<open>extract\<close> and \<open>transform\<close>: \<open>decodeURIComponent\<close> is called outside the \<open>try\<close>
  block, and a COS URL whose query holds a malformed escape makes both raise.
\<close>

theorem extract_raises_on_malformed_escape:
  "extract_url plain_URL (UStr (BASE_URL @ ''?%'')) = Inl URIError
   \<and> transform plain_URL (UStr (BASE_URL @ ''?%'')) no_operations None = Inl URIError"
  by code_simp

section \<open>Properties of the orchestrator\<close>

lemma step_update:
  "(case v of Some x \<Rightarrow> width_update (\<lambda>_. Some x) m | None \<Rightarrow> m) = width_update (\<lambda>y. over y v) m"
  "(case v of Some x \<Rightarrow> height_update (\<lambda>_. Some x) m | None \<Rightarrow> m) = height_update (\<lambda>y. over y v) m"
  "(case vf of Some x \<Rightarrow> format_update (\<lambda>_. Some x) m | None \<Rightarrow> m) = format_update (\<lambda>y. over y vf) m"
  "(case vq of Some x \<Rightarrow> quality_update (\<lambda>_. Some x) m | None \<Rightarrow> m) = quality_update (\<lambda>y. over y vq) m"
  "(case vt of Some x \<Rightarrow> thumbnailMode_update (\<lambda>_. Some x) m | None \<Rightarrow> m) = thumbnailMode_update (\<lambda>y. over y vt) m"
  "(case vb of Some x \<Rightarrow> autoOrient_update (\<lambda>_. Some x) m | None \<Rightarrow> m) = autoOrient_update (\<lambda>y. over y vb) m"
  "(case v of Some x \<Rightarrow> rotate_op_update (\<lambda>_. Some x) m | None \<Rightarrow> m) = rotate_op_update (\<lambda>y. over y v) m"
  "(case vd of Some x \<Rightarrow> flip_update (\<lambda>_. Some x) m | None \<Rightarrow> m) = flip_update (\<lambda>y. over y vd) m"
  "(case v of Some x \<Rightarrow> iradius_update (\<lambda>_. Some x) m | None \<Rightarrow> m) = iradius_update (\<lambda>y. over y v) m"
  "(case v of Some x \<Rightarrow> rradius_update (\<lambda>_. Some x) m | None \<Rightarrow> m) = rradius_update (\<lambda>y. over y v) m"
  "(case v of Some x \<Rightarrow> rquality_update (\<lambda>_. Some x) m | None \<Rightarrow> m) = rquality_update (\<lambda>y. over y v) m"
  "(case v of Some x \<Rightarrow> lquality_update (\<lambda>_. Some x) m | None \<Rightarrow> m) = lquality_update (\<lambda>y. over y v) m"
  "(case vb of Some x \<Rightarrow> ignoreError_update (\<lambda>_. Some x) m | None \<Rightarrow> m) = ignoreError_update (\<lambda>y. over y vb) m"
  by (cases v; cases vf; cases vq; cases vt; cases vb; cases vd; cases m; simp)+

lemma apply_defined_spread: "apply_defined V m = spread m V"
  unfolding apply_defined_def
  apply (simp only: step_update Let_def)
  apply (cases m)
  apply (simp add: spread_def)
  done

lemma over_over_pick: "over (over d e) v = pick v e d"
  by (simp add: over_def pick_def split: option.splits)

lemma spread_spread_layered: "spread (spread D E) V = layered D E V"
  by (simp add: spread_def layered_def over_over_pick)

lemma transform_existing:
  assumes "extract_url P url = Inr (Some base)" and "parses_to_itself P (src base)"
  shows "transform P url V D =
         Inr (with_query (src base)
               (buildImageMogr2 (layered (defaults D) (operations base) V))
               (pipelineSegments base))"
proof -
  from assms(2) obtain u' where u': "P (src base) = Some u'"
    "rx_test COS_HOSTNAME_RE (hostname u')" "origin u' @ pathname u' = src base"
    by (auto simp: parses_to_itself_def split: option.splits)
  have "to_URL P (UStr (src base)) = Some u'" using u'(1) by simp
  from generate_cos [OF this u'(2)] show ?thesis
    using assms(1) u'(3)
    by (simp add: transform_def Let_def apply_defined_spread spread_spread_layered defaults_def)
qed

lemma mem_option_part:
  "x \<in> set (case v of None \<Rightarrow> [] | Some n \<Rightarrow> h n) \<longleftrightarrow> (\<exists>n. v = Some n \<and> x \<in> set (h n))"
  by (cases v) simp_all

lemma auto_orient_part:
  "''auto-orient'' \<in> set (build_parts ops) \<longleftrightarrow> autoOrient ops = Some True"
  by (simp add: build_parts_concat mem_option_part split: QCloudCosThumbnailMode.splits)

lemma ignore_error_part:
  "''ignore-error/1'' \<in> set (build_parts ops) \<longleftrightarrow> ignoreError ops = Some True"
  by (simp add: build_parts_concat mem_option_part split: QCloudCosThumbnailMode.splits)


lemma BASE_URL_parses_to_itself: "parses_to_itself plain_URL BASE_URL"
  by code_simp

lemma PIPELINE_extracted:
  "extract_url plain_URL (UStr (BASE_URL @ ''?'' @ PIPELINE_QUERY)) = Inr (Some PIPELINE_extraction)"
  by code_simp

lemma FLAGS_extracted: "extract_url plain_URL (UStr FLAGS_URL) = Inr (Some FLAGS_extraction)"
  by code_simp

text \<open>
  C1. For a COS URL with existing dialect operations \<open>E\<close> (those that \<open>extract\<close> returns),
  defaults \<open>D\<close> and overrides \<open>V\<close>, the operation set that \<open>transform\<close> serializes into its
  output gives each field the value of \<open>V\<close> when defined, otherwise that of \<open>E\<close> when
  defined, otherwise that of \<open>D\<close>; an undefined override clears nothing. The base URL that
  \<open>extract\<close> returned is taken to parse as the same COS location, as an http or https URL does.
\<close>

theorem transform_precedence:
  assumes "extract_url P url = Inr (Some base)" and "parses_to_itself P (src base)"
  shows "transform P url V D =
         Inr (with_query (src base)
               (buildImageMogr2 (layered (defaults D) (operations base) V))
               (pipelineSegments base))"
  using assms by (rule transform_existing)

theorem transform_precedence_witness:
  "extract_url plain_URL (UStr (BASE_URL @ ''?'' @ PIPELINE_QUERY)) = Inr (Some PIPELINE_extraction)
   \<and> parses_to_itself plain_URL (src PIPELINE_extraction)
   \<and> transform plain_URL (UStr (BASE_URL @ ''?'' @ PIPELINE_QUERY))
         (no_operations\<lparr>format := Some ''webp''\<rparr>)
         (Some (no_operations\<lparr>format := Some ''png'', quality := Some (QNum (Fin 85))\<rparr>))
       = Inr (BASE_URL @ ''?imageMogr2/thumbnail/200x/format/webp/quality/85|watermark/2/text/dGVzdA=='')"
proof -
  have h2: "parses_to_itself plain_URL (src PIPELINE_extraction)"
    using BASE_URL_parses_to_itself by (simp add: PIPELINE_extraction_def)
  have e: "with_query (src PIPELINE_extraction)
             (buildImageMogr2 (layered
                (defaults (Some (no_operations\<lparr>format := Some ''png'',
                                                 quality := Some (QNum (Fin 85))\<rparr>)))
                (operations PIPELINE_extraction) (no_operations\<lparr>format := Some ''webp''\<rparr>)))
             (pipelineSegments PIPELINE_extraction)
           = BASE_URL @ ''?imageMogr2/thumbnail/200x/format/webp/quality/85|watermark/2/text/dGVzdA==''"
    by code_simp
  have "transform plain_URL (UStr (BASE_URL @ ''?'' @ PIPELINE_QUERY))
          (no_operations\<lparr>format := Some ''webp''\<rparr>)
          (Some (no_operations\<lparr>format := Some ''png'', quality := Some (QNum (Fin 85))\<rparr>))
        = Inr (BASE_URL @ ''?imageMogr2/thumbnail/200x/format/webp/quality/85|watermark/2/text/dGVzdA=='')"
    using transform_precedence [OF PIPELINE_extracted h2,
        of "no_operations\<lparr>format := Some ''webp''\<rparr>"
           "Some (no_operations\<lparr>format := Some ''png'', quality := Some (QNum (Fin 85))\<rparr>)"]
    by (simp only: e)
  with PIPELINE_extracted h2 show ?thesis by (intro conjI)
qed







text \<open>
  C10. In \<open>transform\<close>, an override \<open>autoOrient\<close> or \<open>ignoreError\<close> that is explicitly
  \<open>false\<close> replaces an existing \<open>true\<close> taken from the URL, and the serializer then pushes no
  \<open>auto-orient\<close> (no \<open>ignore-error/1\<close>) token; an undefined override keeps the existing
  \<open>true\<close>, and the token is pushed.
\<close>

theorem explicit_false_clears_flag:
  assumes "extract_url P url = Inr (Some base)" and "parses_to_itself P (src base)"
    and "merged = layered (defaults D) (operations base) V"
  shows "transform P url V D =
           Inr (with_query (src base) (buildImageMogr2 merged) (pipelineSegments base))
         \<and> (autoOrient (operations base) = Some True \<and> autoOrient V = Some False
              \<longrightarrow> autoOrient merged = Some False \<and> ''auto-orient'' \<notin> set (build_parts merged))
         \<and> (autoOrient (operations base) = Some True \<and> autoOrient V = None
              \<longrightarrow> autoOrient merged = Some True \<and> ''auto-orient'' \<in> set (build_parts merged))
         \<and> (ignoreError (operations base) = Some True \<and> ignoreError V = Some False
              \<longrightarrow> ignoreError merged = Some False \<and> ''ignore-error/1'' \<notin> set (build_parts merged))
         \<and> (ignoreError (operations base) = Some True \<and> ignoreError V = None
              \<longrightarrow> ignoreError merged = Some True \<and> ''ignore-error/1'' \<in> set (build_parts merged))"
  using transform_existing [OF assms(1,2), of V D]
  by (simp add: assms(3) auto_orient_part ignore_error_part layered_def pick_def)

theorem explicit_false_clears_flag_witness:
  "extract_url plain_URL (UStr FLAGS_URL) = Inr (Some FLAGS_extraction)
   \<and> parses_to_itself plain_URL (src FLAGS_extraction)
   \<and> autoOrient (operations FLAGS_extraction) = Some True
   \<and> ignoreError (operations FLAGS_extraction) = Some True
   \<and> transform plain_URL (UStr FLAGS_URL) (no_operations\<lparr>autoOrient := Some False\<rparr>) None
       = Inr (BASE_URL @ ''?imageMogr2/format/webp/ignore-error/1|watermark/2'')
   \<and> ''auto-orient'' \<notin> set (build_parts
         (layered (defaults None) (operations FLAGS_extraction)
            (no_operations\<lparr>autoOrient := Some False\<rparr>)))
   \<and> ''ignore-error/1'' \<in> set (build_parts
         (layered (defaults None) (operations FLAGS_extraction)
            (no_operations\<lparr>autoOrient := Some False\<rparr>)))"
proof -
  have h2: "parses_to_itself plain_URL (src FLAGS_extraction)"
    using BASE_URL_parses_to_itself by (simp add: FLAGS_extraction_def)
  have f: "autoOrient (operations FLAGS_extraction) = Some True"
    "ignoreError (operations FLAGS_extraction) = Some True"
    "autoOrient (no_operations\<lparr>autoOrient := Some False\<rparr>) = Some False"
    "ignoreError (no_operations\<lparr>autoOrient := Some False\<rparr>) = None"
    by (simp_all add: FLAGS_extraction_def)
  have e: "with_query (src FLAGS_extraction)
             (buildImageMogr2 (layered (defaults None) (operations FLAGS_extraction)
                (no_operations\<lparr>autoOrient := Some False\<rparr>)))
             (pipelineSegments FLAGS_extraction)
           = BASE_URL @ ''?imageMogr2/format/webp/ignore-error/1|watermark/2''"
    by code_simp
  note r = explicit_false_clears_flag [OF FLAGS_extracted h2 refl,
        of "no_operations\<lparr>autoOrient := Some False\<rparr>" None]
  have r1: "transform plain_URL (UStr FLAGS_URL) (no_operations\<lparr>autoOrient := Some False\<rparr>) None
            = Inr (BASE_URL @ ''?imageMogr2/format/webp/ignore-error/1|watermark/2'')"
    using r [THEN conjunct1] by (simp only: e)
  have r2: "''auto-orient'' \<notin> set (build_parts
         (layered (defaults None) (operations FLAGS_extraction)
            (no_operations\<lparr>autoOrient := Some False\<rparr>)))"
    using r [THEN conjunct2, THEN conjunct1] f by blast
  have r3: "''ignore-error/1'' \<in> set (build_parts
         (layered (defaults None) (operations FLAGS_extraction)
            (no_operations\<lparr>autoOrient := Some False\<rparr>)))"
    using r [THEN conjunct2, THEN conjunct2, THEN conjunct2, THEN conjunct2] f by blast
  from FLAGS_extracted h2 f(1,2) r1 r2 r3 show ?thesis by (intro conjI)
qed

section \<open>Numbers and their digits\<close>

lemma digit_chars_nth: "\<forall>k \<in> set [0..<10]. digit_val (digit_chars ! k) = k \<and> digit_chars ! k \<in> set digit_chars"
  by code_simp

lemma digit_val_nth: "k < 10 \<Longrightarrow> digit_val (digit_chars ! k) = k"
  using digit_chars_nth by simp

lemma digit_nth_mem: "k < 10 \<Longrightarrow> digit_chars ! k \<in> set digit_chars"
  using digit_chars_nth by simp

lemma digits_of_not_Nil [simp]: "digits_of n \<noteq> []"
  by (subst digits_of.simps) simp

lemma digits_of_digits: "set (digits_of n) \<subseteq> set digit_chars"
proof (induction n rule: digits_of.induct)
  case (1 n)
  show ?case
  proof (cases "n < 10")
    case True
    then show ?thesis by (subst digits_of.simps) (simp add: digit_nth_mem)
  next
    case False
    then show ?thesis using 1 by (subst digits_of.simps) (simp add: digit_nth_mem)
  qed
qed

lemma radix_val_snoc: "radix_val b (ds @ [c]) = b * radix_val b ds + digit_val c"
  by (simp add: radix_val_def)

lemma radix_val_digits_of: "radix_val 10 (digits_of n) = n"
proof (induction n rule: digits_of.induct)
  case (1 n)
  show ?case
  proof (cases "n < 10")
    case True
    then show ?thesis by (subst digits_of.simps) (simp add: radix_val_def digit_val_nth)
  next
    case False
    then show ?thesis using 1
      by (subst digits_of.simps) (simp add: radix_val_snoc digit_val_nth)
  qed
qed
lemma ws_prefix_none:
  assumes "c \<notin> set [CHR 0x09, CHR 0x0A, CHR 0x0B, CHR 0x0C, CHR 0x0D, CHR 0x20, CHR 0xC2,
                      CHR 0xE1, CHR 0xE2, CHR 0xE3, CHR 0xEF]"
  shows "ws_prefix white_space (c # t) = 0"
  using assms by (simp add: ws_prefix_def white_space_def startsWith_def)

lemma ws_prefix_rev_none:
  assumes "c \<notin> set [CHR 0x09, CHR 0x0A, CHR 0x0B, CHR 0x0C, CHR 0x0D, CHR 0x20, CHR 0xA0,
                      CHR 0x80, CHR 0x81, CHR 0x82, CHR 0x83, CHR 0x84, CHR 0x85, CHR 0x86,
                      CHR 0x87, CHR 0x88, CHR 0x89, CHR 0x8A, CHR 0xA8, CHR 0xA9, CHR 0xAF,
                      CHR 0x9F, CHR 0xBF]"
  shows "ws_prefix (map rev white_space) (c # t) = 0"
  using assms by (simp add: ws_prefix_def white_space_def startsWith_def)

lemma strip_ws_none: "ws_prefix ws s = 0 \<Longrightarrow> strip_ws ws s = s"
  by (subst strip_ws.simps) simp

text \<open>A string that starts with a digit or a sign and ends with a digit has nothing to trim.\<close>

lemma trim_digits:
  assumes "s = c # t" and "c \<in> set digit_chars \<or> c = CHR ''-''" and "last s \<in> set digit_chars"
  shows "trim s = s"
proof -
  have a: "strip_ws white_space s = s"
    using assms(1,2) by (intro strip_ws_none) (auto simp: digit_chars_def intro!: ws_prefix_none)
  have "s \<noteq> []" using assms(1) by simp
  then have "rev s = rev (butlast s @ [last s])" by simp
  then have r: "rev s = last s # rev (butlast s)"
    by (simp only: rev_append rev.simps append.simps)
  have b: "strip_ws (map rev white_space) (rev s) = rev s"
    unfolding r using assms(3)
    by (intro strip_ws_none) (auto simp: digit_chars_def intro!: ws_prefix_rev_none)
  show ?thesis by (simp add: trim_def a b)
qed
lemma non_decimal_digits:
  assumes "set ds \<subseteq> set digit_chars"
  shows "non_decimal ds = None"
proof -
  consider "ds = []" | z where "ds = [z]" | z c r where "ds = z # c # r"
    by (cases ds; cases "tl ds") auto
  then show ?thesis
  proof cases
    case 1
    then show ?thesis by (simp add: non_decimal_def)
  next
    case 2
    then show ?thesis by (simp add: non_decimal_def)
  next
    case 3
    then have "c \<in> set digit_chars" using assms by simp
    then have "c \<notin> set ''xX''" "c \<notin> set ''oO''" "c \<notin> set ''bB''"
      by (auto simp: digit_chars_def)
    then show ?thesis using 3 by (simp add: non_decimal_def)
  qed
qed

lemma non_decimal_minus: "non_decimal (CHR ''-'' # ds) = None"
  by (simp add: non_decimal_def split: list.splits)

lemma str_decimal_digits:
  assumes "set ds \<subseteq> set digit_chars" and "ds \<noteq> []"
  shows "str_decimal ds = Some (of_nat (radix_val 10 ds))"
proof -
  have tw: "takeWhile is_digit ds = ds" "dropWhile is_digit ds = []"
    using assms(1) by (auto simp: is_digit_def)
  show ?thesis
    unfolding str_decimal_def tw by (simp add: assms(2) exponent_part_def)
qed

lemma unsigned_literal_digits:
  assumes "set ds \<subseteq> set digit_chars" and "ds \<noteq> []"
  shows "unsigned_literal ds = Fin (of_nat (radix_val 10 ds))"
proof -
  have "ds \<noteq> ''Infinity''" using assms(1) by (auto simp: digit_chars_def)
  then show ?thesis by (simp add: unsigned_literal_def str_decimal_digits [OF assms])
qed

lemma hd_last_digits_of:
  "hd (digits_of n) \<in> set digit_chars" "last (digits_of n) \<in> set digit_chars"
  using digits_of_digits [of n] digits_of_not_Nil [of n]
  by (auto simp del: digits_of_not_Nil)

lemma Number_digits_of: "Number (digits_of n) = Fin (of_nat n)"
proof -
  obtain c t where s: "digits_of n = c # t"
    by (cases "digits_of n") simp_all
  have c: "c \<in> set digit_chars" using hd_last_digits_of(1) [of n] s by simp
  have t: "trim (digits_of n) = digits_of n"
    using s c hd_last_digits_of(2) [of n] by (intro trim_digits [where c = c and t = t]) simp_all
  have h: "hd (digits_of n) \<noteq> CHR ''+''" "hd (digits_of n) \<noteq> CHR ''-''"
    using hd_last_digits_of(1) [of n] by (auto simp: digit_chars_def)
  show ?thesis
    unfolding Number_def Let_def t
    by (simp add: non_decimal_digits [OF digits_of_digits] h radix_val_digits_of
          unsigned_literal_digits [OF digits_of_digits digits_of_not_Nil])
qed

lemma Number_minus_digits_of: "Number (CHR ''-'' # digits_of n) = Fin (- of_nat n)"
proof -
  have "last (CHR ''-'' # digits_of n) \<in> set digit_chars"
    using hd_last_digits_of(2) [of n] by simp
  then have t: "trim (CHR ''-'' # digits_of n) = CHR ''-'' # digits_of n"
    by (intro trim_digits [where c = "CHR ''-''" and t = "digits_of n"]) simp_all
  show ?thesis
    unfolding Number_def Let_def t
    by (simp add: non_decimal_minus radix_val_digits_of
          unsigned_literal_digits [OF digits_of_digits digits_of_not_Nil])
qed

lemma count_digits:
  assumes "is_count n"
  shows "\<exists>k. n = Fin (of_nat k) \<and> number_to_string n = digits_of k"
proof -
  from assms obtain q where q: "n = Fin q" "of_int \<lfloor>q\<rfloor> = q" "0 \<le> q" "q < 10 ^ 21"
    by (auto simp: is_count_def split: number.splits)
  have k: "q = of_nat (nat \<lfloor>q\<rfloor>)"
    using q(2,3) by (metis floor_of_nat of_int_of_nat_eq zero_le_floor nat_0_le)
  have z: "digits_of 0 = ''0''"
    by (subst digits_of.simps) (simp add: digit_chars_def)
  have "number_to_string (Fin q) = digits_of (nat \<lfloor>q\<rfloor>)"
    using q(2-4) z by (auto simp: positive_to_string_def)
  then show ?thesis using q(1) k by metis
qed

lemma integer_digits:
  assumes "is_integer n"
  shows "(\<exists>k. n = Fin (of_nat k) \<and> number_to_string n = digits_of k)
         \<or> (\<exists>k. n = Fin (- of_nat k) \<and> number_to_string n = CHR ''-'' # digits_of k)"
proof -
  from assms obtain q where q: "n = Fin q" "of_int \<lfloor>q\<rfloor> = q" "\<bar>q\<bar> < 2 ^ 53"
    by (auto simp: is_integer_def split: number.splits)
  have b: "\<bar>q\<bar> < 10 ^ 21" using q(3) by simp
  show ?thesis
  proof (cases "0 \<le> q")
    case True
    then have "is_count n" using q by (simp add: is_count_def)
    then show ?thesis using count_digits by blast
  next
    case False
    then have neg: "q < 0" by simp
    have f: "of_int \<lfloor>- q\<rfloor> = - q" using q(2) by (metis of_int_minus floor_of_int)
    have k: "- q = of_nat (nat \<lfloor>- q\<rfloor>)"
      using f neg by (metis floor_of_nat of_int_of_nat_eq zero_le_floor nat_0_le
          neg_0_le_iff_le less_imp_le)
    have "number_to_string (Fin q) = CHR ''-'' # digits_of (nat \<lfloor>- q\<rfloor>)"
      using neg f b by (auto simp: positive_to_string_def)
    moreover have "q = - of_nat (nat \<lfloor>- q\<rfloor>)" using k by simp
    ultimately show ?thesis using q(1) by metis
  qed
qed

lemma count_string:
  assumes "is_count n"
  shows "set (number_to_string n) \<subseteq> set digit_chars" "number_to_string n \<noteq> []"
    "Number (number_to_string n) = n"
proof -
  obtain k where k: "n = Fin (of_nat k)" "number_to_string n = digits_of k"
    using count_digits [OF assms] by blast
  show "set (number_to_string n) \<subseteq> set digit_chars"
    unfolding k(2) by (rule digits_of_digits)
  show "number_to_string n \<noteq> []"
    unfolding k(2) by (rule digits_of_not_Nil)
  show "Number (number_to_string n) = n"
    unfolding k(2) Number_digits_of by (simp only: k(1))
qed

lemma digit_chars_no_slash: "CHR ''/'' \<notin> set digit_chars"
  by (simp add: digit_chars_def)

lemma integer_string:
  assumes "is_integer n"
  shows "CHR ''/'' \<notin> set (number_to_string n)" "Number (number_to_string n) = n"
    "\<not> isNaN n"
proof -
  consider k where "n = Fin (of_nat k)" "number_to_string n = digits_of k"
    | k where "n = Fin (- of_nat k)" "number_to_string n = CHR ''-'' # digits_of k"
    using integer_digits [OF assms] by blast
  then have "CHR ''/'' \<notin> set (number_to_string n) \<and> Number (number_to_string n) = n
             \<and> \<not> isNaN n"
  proof cases
    case 1
    have "CHR ''/'' \<notin> set (digits_of k)"
      using digits_of_digits [of k] digit_chars_no_slash by blast
    then show ?thesis
      unfolding 1(2) Number_digits_of by (simp add: 1(1) isNaN_def)
  next
    case 2
    have "CHR ''/'' \<notin> set (digits_of k)"
      using digits_of_digits [of k] digit_chars_no_slash by blast
    then show ?thesis
      unfolding 2(2) Number_minus_digits_of by (simp add: 2(1) isNaN_def)
  qed
  then show "CHR ''/'' \<notin> set (number_to_string n)" "Number (number_to_string n) = n"
    "\<not> isNaN n"
    by simp_all
qed

section \<open>The dimension patterns\<close>

lemma star_run_class:
  assumes "set a \<subseteq> set cl" and "r = [] \<or> hd r \<notin> set cl"
  shows "\<exists>ys. star_run cl (a @ r) = r # ys \<and> (\<forall>y\<in>set ys. y \<noteq> [] \<and> hd y \<in> set cl)"
  using assms
proof (induction a)
  case Nil
  then show ?case by (cases r) auto
next
  case (Cons x a)
  then obtain ys where "star_run cl (a @ r) = r # ys" "\<forall>y\<in>set ys. y \<noteq> [] \<and> hd y \<in> set cl"
    by auto
  then show ?case using Cons.prems(1) by auto
qed

lemma concat_map_Nil: "(\<And>y. y \<in> set ys \<Longrightarrow> f y = []) \<Longrightarrow> concat (map f ys) = []"
  by (induction ys) auto

text \<open>
  A group \<open>([cl]*)\<close> followed by a pattern that cannot start with a character of the class
  takes the whole run: backtracking into the run always fails.
\<close>

lemma grp_star_seq:
  assumes "set a \<subseteq> set cl" and "r = [] \<or> hd r \<notin> set cl"
    and "\<And>c t. c \<in> set cl \<Longrightarrow> rx_run K (c # t) = []"
  shows "rx_run (Seq (Grp (Star cl)) K) (a @ r) = map (\<lambda>(cb, u). (a # cb, u)) (rx_run K r)"
proof -
  obtain ys where ys: "star_run cl (a @ r) = r # ys" "\<forall>y\<in>set ys. y \<noteq> [] \<and> hd y \<in> set cl"
    using star_run_class [OF assms(1,2)] by blast
  have "rx_run K y = []" if "y \<in> set ys" for y
  proof -
    from that ys(2) have "y \<noteq> []" "hd y \<in> set cl" by blast+
    then obtain c t where "y = c # t" "c \<in> set cl" by (cases y) simp_all
    then show ?thesis using assms(3) by simp
  qed
  then have "concat (map (\<lambda>y. map (\<lambda>(cb, u). (take (length (a @ r) - length y) (a @ r) # cb, u))
                                (rx_run K y)) ys) = []"
    by (intro concat_map_Nil) simp
  then show ?thesis
    by (simp add: ys(1) comp_def case_prod_unfold)
qed

lemma grp_star_first:
  assumes "set a \<subseteq> set cl" and "r = [] \<or> hd r \<notin> set cl"
  shows "\<exists>zs. rx_run (Grp (Star cl)) (a @ r) = ([a], r) # zs"
proof -
  obtain ys where ys: "star_run cl (a @ r) = r # ys"
    using star_run_class [OF assms] by blast
  show ?thesis by (simp add: ys)
qed

lemma str_seq_miss: "c \<noteq> x \<Longrightarrow> rx_run (Seq (Str (x # p)) K) (c # t) = []"
  by (simp add: startsWith_def)

lemma str_seq_hit: "rx_run (Seq (Str [x]) K) (x # t) = rx_run K t"
  by (simp add: startsWith_def)

lemma mark_end: "rx_run (Seq (Str [m]) Eos) r = (if r = [m] then [([], [])] else [])"
  by (cases r) (auto simp: startsWith_def)

lemma x_not_digit: "CHR ''x'' \<notin> set digit_chars"
  by (simp add: digit_chars_def)

lemma str_seq_digit:
  assumes "x \<notin> set digit_chars" and "c \<in> set digit_chars"
  shows "rx_run (Seq (Str (x # p)) K) (c # t) = []"
  using assms by (intro str_seq_miss) auto

text \<open>\<open>/^(\d*)x(\d*)/\<close> on \<open>WxH\<close> followed by anything that is not a digit.\<close>

lemma fit_re_match:
  assumes "set a \<subseteq> set digit_chars" and "set b \<subseteq> set digit_chars"
    and "r = [] \<or> hd r \<notin> set digit_chars"
  shows "rx_match fit_re (a @ ''x'' @ b @ r) = Some [a, b]"
proof -
  obtain zs where zs: "rx_run (Grp (Star digit_chars)) (b @ r) = ([b], r) # zs"
    using grp_star_first [OF assms(2,3)] by blast
  have "rx_run (Seq (Grp (Star digit_chars)) (Seq (Str ''x'') (Grp (Star digit_chars))))
          (a @ (CHR ''x'' # b @ r))
        = map (\<lambda>(cb, u). (a # cb, u))
            (rx_run (Seq (Str ''x'') (Grp (Star digit_chars))) (CHR ''x'' # b @ r))"
    by (rule grp_star_seq [OF assms(1) _ str_seq_digit [OF x_not_digit]])
       (simp_all add: x_not_digit)
  then show ?thesis
    by (simp add: rx_match_def fit_re_def dims_re_def str_seq_hit zs del: rx_run.simps)
qed

text \<open>\<open>/^(\d*)x(\d*)m$/\<close> for a mark \<open>m\<close> that is not a digit.\<close>

lemma mark_re_match:
  assumes "set a \<subseteq> set digit_chars" and "set b \<subseteq> set digit_chars"
    and "r = [] \<or> hd r \<notin> set digit_chars" and "m \<notin> set digit_chars"
  shows "rx_match (Seqs (dims_re @ [Str [m], Eos])) (a @ ''x'' @ b @ r)
         = (if r = [m] then Some [a, b] else None)"
proof -
  let ?K3 = "Seq (Str [m]) Eos"
  let ?G = "Grp (Star digit_chars)"
  have 1: "rx_run (Seq ?G ?K3) (b @ r) = map (\<lambda>(cb, u). (b # cb, u)) (rx_run ?K3 r)"
    by (rule grp_star_seq [OF assms(2,3) str_seq_digit [OF assms(4)]])
  have 2: "rx_run (Seq ?G (Seq (Str ''x'') (Seq ?G ?K3))) (a @ (CHR ''x'' # b @ r))
           = map (\<lambda>(cb, u). (a # cb, u))
               (rx_run (Seq (Str ''x'') (Seq ?G ?K3)) (CHR ''x'' # b @ r))"
    by (rule grp_star_seq [OF assms(1) _ str_seq_digit [OF x_not_digit]])
       (simp_all add: x_not_digit)
  show ?thesis
    using 2 by (simp add: rx_match_def dims_re_def str_seq_hit 1 mark_end del: rx_run.simps)
qed

section \<open>The round trip\<close>

lemma split_on_no_sep: "sep \<notin> set v \<Longrightarrow> split_on sep v = [v]"
  by (induction v) auto

lemma split_on_append: "split_on sep (a @ sep # b) = split_on sep a @ split_on sep b"
  by (induction a) (auto split: list.splits)

lemma split_on_join:
  "ps \<noteq> [] \<Longrightarrow> split_on sep (join_with [sep] ps) = concat (map (split_on sep) ps)"
proof (induction ps)
  case Nil
  then show ?case by simp
next
  case (Cons p ps)
  show ?case
  proof (cases ps)
    case Nil
    then show ?thesis by simp
  next
    case (Cons q qs)
    then have "split_on sep (join_with [sep] ps) = concat (map (split_on sep) ps)"
      using Cons.IH by simp
    then show ?thesis
      using Cons split_on_append [of sep p "join_with [sep] ps"] by simp
  qed
qed

lemma join_with_not_Nil: "ps \<noteq> [] \<Longrightarrow> [] \<notin> set ps \<Longrightarrow> join_with sep ps \<noteq> []"
  by (cases ps; cases "tl ps") auto

lemma key_value_tokens:
  "CHR ''/'' \<notin> set key \<Longrightarrow> CHR ''/'' \<notin> set v \<Longrightarrow>
   split_on (CHR ''/'') (key @ ''/'' @ v) = [key, v]"
  using split_on_append [of "CHR ''/''" key v] by (simp add: split_on_no_sep)

lemma empty_not_part: "[] \<notin> set (build_parts ops)"
  by (simp add: build_parts_concat mem_option_part split: QCloudCosThumbnailMode.splits)

lemma parse_built:
  "parseImageMogr2 (buildImageMogr2 ops) = parse_tokens (flat_tokens ops) no_operations"
proof (cases "build_parts ops = []")
  case True
  then show ?thesis
    by (simp add: buildImageMogr2_def parseImageMogr2_def flat_tokens_def rx_remove_def
        prefix_re_def startsWith_def parse_tokens.simps(1))
next
  case False
  let ?J = "join_with ''/'' (build_parts ops)"
  have J: "?J \<noteq> []" using False empty_not_part by (rule join_with_not_Nil)
  have "rx_remove prefix_re (''imageMogr2'' @ (CHR ''/'' # ?J)) = ?J"
    by (simp only: remove_prefix) (simp add: startsWith_def)
  then have "rx_remove prefix_re (buildImageMogr2 ops) = ?J"
    using False by (simp add: buildImageMogr2_def)
  then show ?thesis
    using J False by (simp add: parseImageMogr2_def flat_tokens_def split_on_join)
qed

lemma update_identity [simp]:
  "width_update (\<lambda>y. y) ops = ops"
  "height_update (\<lambda>y. y) ops = ops"
  "format_update (\<lambda>y. y) ops = ops"
  "quality_update (\<lambda>y. y) ops = ops"
  "thumbnailMode_update (\<lambda>y. y) ops = ops"
  "autoOrient_update (\<lambda>y. y) ops = ops"
  "rotate_op_update (\<lambda>y. y) ops = ops"
  "flip_update (\<lambda>y. y) ops = ops"
  "iradius_update (\<lambda>y. y) ops = ops"
  "rradius_update (\<lambda>y. y) ops = ops"
  "rquality_update (\<lambda>y. y) ops = ops"
  "lquality_update (\<lambda>y. y) ops = ops"
  "ignoreError_update (\<lambda>y. y) ops = ops"
  by (cases ops, simp)+

lemma step_two:
  "parse_tokens (tok # nxt # rest) ops =
     parse_tokens (if snd (parse_step tok (Some nxt) ops) then rest else nxt # rest)
       (fst (parse_step tok (Some nxt) ops))"
  by (simp add: parse_tokens.simps Let_def)

lemma step_iradius:
  assumes "when_set is_integer v"
  shows "parse_tokens (arg_tokens ''iradius'' (map_option number_to_string v) @ rest) ops
         = parse_tokens rest (iradius_update (\<lambda>y. over y v) ops)"
proof (cases v)
  case None
  then show ?thesis by (simp add: arg_tokens_def)
next
  case (Some n)
  then have "is_integer n" using assms by (simp add: when_set_def)
  then show ?thesis
    using Some by (simp add: arg_tokens_def step_two parse_step_def integer_string)
qed

lemma step_rradius:
  assumes "when_set is_integer v"
  shows "parse_tokens (arg_tokens ''rradius'' (map_option number_to_string v) @ rest) ops
         = parse_tokens rest (rradius_update (\<lambda>y. over y v) ops)"
proof (cases v)
  case None
  then show ?thesis by (simp add: arg_tokens_def)
next
  case (Some n)
  then have "is_integer n" using assms by (simp add: when_set_def)
  then show ?thesis
    using Some by (simp add: arg_tokens_def step_two parse_step_def integer_string)
qed

lemma step_rotate:
  assumes "when_set is_integer v"
  shows "parse_tokens (arg_tokens ''rotate'' (map_option number_to_string v) @ rest) ops
         = parse_tokens rest (rotate_op_update (\<lambda>y. over y v) ops)"
proof (cases v)
  case None
  then show ?thesis by (simp add: arg_tokens_def)
next
  case (Some n)
  then have "is_integer n" using assms by (simp add: when_set_def)
  then show ?thesis
    using Some by (simp add: arg_tokens_def step_two parse_step_def integer_string)
qed

lemma step_rquality:
  assumes "when_set is_integer v"
  shows "parse_tokens (arg_tokens ''rquality'' (map_option number_to_string v) @ rest) ops
         = parse_tokens rest (rquality_update (\<lambda>y. over y v) ops)"
proof (cases v)
  case None
  then show ?thesis by (simp add: arg_tokens_def)
next
  case (Some n)
  then have "is_integer n" using assms by (simp add: when_set_def)
  then show ?thesis
    using Some by (simp add: arg_tokens_def step_two parse_step_def integer_string)
qed

lemma step_lquality:
  assumes "when_set is_integer v"
  shows "parse_tokens (arg_tokens ''lquality'' (map_option number_to_string v) @ rest) ops
         = parse_tokens rest (lquality_update (\<lambda>y. over y v) ops)"
proof (cases v)
  case None
  then show ?thesis by (simp add: arg_tokens_def)
next
  case (Some n)
  then have "is_integer n" using assms by (simp add: when_set_def)
  then show ?thesis
    using Some by (simp add: arg_tokens_def step_two parse_step_def integer_string)
qed

lemma step_flip:
  "parse_tokens (arg_tokens ''flip'' (map_option flip_name v) @ rest) ops
   = parse_tokens rest (flip_update (\<lambda>y. over y v) ops)"
proof (cases v)
  case None
  then show ?thesis by (simp add: arg_tokens_def)
next
  case (Some d)
  then show ?thesis
    by (cases d) (simp_all add: arg_tokens_def step_two parse_step_def)
qed

lemma step_format:
  "parse_tokens (arg_tokens ''format'' v @ rest) ops
   = parse_tokens rest (format_update (\<lambda>y. over y v) ops)"
  by (cases v) (simp_all add: arg_tokens_def step_two parse_step_def)

lemma step_quality:
  assumes "when_set (\<lambda>q. case q of QNum n \<Rightarrow> is_integer n
                            | QStr s \<Rightarrow> CHR ''/'' \<notin> set s \<and> isNaN (Number s)) v"
  shows "parse_tokens (arg_tokens ''quality'' (map_option quality_to_string v) @ rest) ops
         = parse_tokens rest (quality_update (\<lambda>y. over y v) ops)"
proof (cases v)
  case None
  then show ?thesis by (simp add: arg_tokens_def)
next
  case (Some q)
  show ?thesis
  proof (cases q)
    case (QNum n)
    then have "is_integer n" using assms Some by (simp add: when_set_def)
    then show ?thesis
      using Some QNum by (simp add: arg_tokens_def step_two parse_step_def integer_string)
  next
    case (QStr s)
    then have "isNaN (Number s)" using assms Some by (simp add: when_set_def)
    then show ?thesis
      using Some QStr by (simp add: arg_tokens_def step_two parse_step_def)
  qed
qed

lemma step_auto_orient:
  assumes "when_set (\<lambda>b. b) v"
  shows "parse_tokens (flag_tokens [''auto-orient''] v @ rest) ops
         = parse_tokens rest (autoOrient_update (\<lambda>y. over y v) ops)"
proof (cases v)
  case None
  then show ?thesis by (simp add: flag_tokens_def)
next
  case (Some b)
  then have "b" using assms by (simp add: when_set_def)
  then show ?thesis
    using Some
    by (cases rest) (simp_all add: flag_tokens_def parse_tokens.simps parse_step_def Let_def)
qed

lemma step_ignore_error:
  assumes "when_set (\<lambda>b. b) v"
  shows "parse_tokens (flag_tokens [''ignore-error'', ''1''] v @ rest) ops
         = parse_tokens rest (ignoreError_update (\<lambda>y. over y v) ops)"
proof (cases v)
  case None
  then show ?thesis by (simp add: flag_tokens_def)
next
  case (Some b)
  then have "b" using assms by (simp add: when_set_def)
  then show ?thesis
    using Some by (simp add: flag_tokens_def step_two parse_step_def)
qed

lemma dimension_digits: "when_set is_count w \<Longrightarrow> set (dimension w) \<subseteq> set digit_chars"
  by (cases w) (simp_all add: dimension_def when_set_def count_string)

lemma set_dims_counts:
  assumes "when_set is_count w" and "when_set is_count h"
  shows "set_dims [dimension w, dimension h] ops
         = height_update (\<lambda>y. over y h) (width_update (\<lambda>y. over y w) ops)"
proof -
  have w: "(if dimension w \<noteq> [] then ops\<lparr>width := Some (Number (dimension w))\<rparr> else ops)
           = width_update (\<lambda>y. over y w) ops" for ops
    using assms(1) by (cases w) (simp_all add: dimension_def when_set_def count_string)
  have h: "(if dimension h \<noteq> [] then ops\<lparr>height := Some (Number (dimension h))\<rparr> else ops)
           = height_update (\<lambda>y. over y h) ops" for ops
    using assms(2) by (cases h) (simp_all add: dimension_def when_set_def count_string)
  show ?thesis
    unfolding set_dims_def by (simp only: list.case Let_def w h)
qed

lemma marks_not_digits:
  "CHR ''!'' \<notin> set digit_chars" "CHR ''>'' \<notin> set digit_chars" "CHR ''<'' \<notin> set digit_chars"
  by (simp_all add: digit_chars_def)

lemma thumbnail_arg_fit:
  assumes "set a \<subseteq> set digit_chars" and "set b \<subseteq> set digit_chars"
  shows "thumbnail_arg (a @ ''x'' @ b) ops = set_dims [a, b] ops"
proof -
  have m: "rx_match force_re (a @ ''x'' @ b @ []) = None"
    "rx_match shrink_re (a @ ''x'' @ b @ []) = None"
    "rx_match enlarge_re (a @ ''x'' @ b @ []) = None"
    unfolding force_re_def shrink_re_def enlarge_re_def
    by (simp_all only: mark_re_match [OF assms _ marks_not_digits(1)]
        mark_re_match [OF assms _ marks_not_digits(2)]
        mark_re_match [OF assms _ marks_not_digits(3)] simp_thms) simp_all
  have f: "rx_match fit_re (a @ ''x'' @ b @ []) = Some [a, b]"
    by (rule fit_re_match [OF assms]) simp
  show ?thesis
    using m f by (simp add: thumbnail_arg_def)
qed

lemma thumbnail_arg_force:
  assumes "set a \<subseteq> set digit_chars" and "set b \<subseteq> set digit_chars"
  shows "thumbnail_arg (a @ ''x'' @ b @ ''!'') ops = (set_dims [a, b] ops)\<lparr>thumbnailMode := Some Force\<rparr>"
proof -
  have "rx_match force_re (a @ ''x'' @ b @ ''!'') = Some [a, b]"
    unfolding force_re_def
    using mark_re_match [OF assms _ marks_not_digits(1), of "''!''"] marks_not_digits by simp
  then show ?thesis by (simp add: thumbnail_arg_def)
qed

lemma thumbnail_arg_shrink:
  assumes "set a \<subseteq> set digit_chars" and "set b \<subseteq> set digit_chars"
  shows "thumbnail_arg (a @ ''x'' @ b @ ''>'') ops
         = (set_dims [a, b] ops)\<lparr>thumbnailMode := Some ShrinkOnly\<rparr>"
proof -
  have "rx_match force_re (a @ ''x'' @ b @ ''>'') = None"
    unfolding force_re_def
    using mark_re_match [OF assms _ marks_not_digits(1), of "''>''"] marks_not_digits by simp
  moreover have "rx_match shrink_re (a @ ''x'' @ b @ ''>'') = Some [a, b]"
    unfolding shrink_re_def
    using mark_re_match [OF assms _ marks_not_digits(2), of "''>''"] marks_not_digits by simp
  ultimately show ?thesis by (simp add: thumbnail_arg_def)
qed

lemma thumbnail_arg_enlarge:
  assumes "set a \<subseteq> set digit_chars" and "set b \<subseteq> set digit_chars"
  shows "thumbnail_arg (a @ ''x'' @ b @ ''<'') ops
         = (set_dims [a, b] ops)\<lparr>thumbnailMode := Some EnlargeOnly\<rparr>"
proof -
  have "rx_match force_re (a @ ''x'' @ b @ ''<'') = None"
    unfolding force_re_def
    using mark_re_match [OF assms _ marks_not_digits(1), of "''<''"] marks_not_digits by simp
  moreover have "rx_match shrink_re (a @ ''x'' @ b @ ''<'') = None"
    unfolding shrink_re_def
    using mark_re_match [OF assms _ marks_not_digits(2), of "''<''"] marks_not_digits by simp
  moreover have "rx_match enlarge_re (a @ ''x'' @ b @ ''<'') = Some [a, b]"
    unfolding enlarge_re_def
    using mark_re_match [OF assms _ marks_not_digits(3), of "''<''"] marks_not_digits by simp
  ultimately show ?thesis by (simp add: thumbnail_arg_def)
qed

lemma crop_arg_dims:
  assumes "set a \<subseteq> set digit_chars" and "set b \<subseteq> set digit_chars"
  shows "crop_arg (a @ ''x'' @ b) ops = (set_dims [a, b] ops)\<lparr>thumbnailMode := Some Cover\<rparr>"
proof -
  have "rx_match fit_re (a @ ''x'' @ b @ []) = Some [a, b]"
    by (rule fit_re_match [OF assms]) simp
  then show ?thesis by (simp add: crop_arg_def)
qed

lemma step_resize:
  assumes "when_set is_count (width src_ops)" and "when_set is_count (height src_ops)"
    and "when_set (\<lambda>m. m \<noteq> Fit \<and> (width src_ops \<noteq> None \<or> height src_ops \<noteq> None))
           (thumbnailMode src_ops)"
  shows "parse_tokens (resize_tokens src_ops @ rest) ops
         = parse_tokens rest
             (thumbnailMode_update (\<lambda>y. over y (thumbnailMode src_ops))
               (height_update (\<lambda>y. over y (height src_ops))
                 (width_update (\<lambda>y. over y (width src_ops)) ops)))"
proof (cases "width src_ops = None \<and> height src_ops = None")
  case True
  then have "thumbnailMode src_ops = None"
    using assms(3) by (cases "thumbnailMode src_ops") (simp_all add: when_set_def)
  then show ?thesis using True by (simp add: resize_tokens_def)
next
  case False
  let ?a = "dimension (width src_ops)"
  let ?b = "dimension (height src_ops)"
  note a = dimension_digits [OF assms(1)]
  note b = dimension_digits [OF assms(2)]
  note d = set_dims_counts [OF assms(1,2)]
  show ?thesis
  proof (cases "thumbnailMode src_ops")
    case None
    have "parse_tokens ([''thumbnail'', ?a @ ''x'' @ ?b] @ rest) ops
          = parse_tokens rest (set_dims [?a, ?b] ops)"
      by (simp add: step_two parse_step_def thumbnail_arg_fit [OF a b, simplified])
    then show ?thesis using None by (simp add: resize_tokens_def d False)
  next
    case (Some m)
    then have "m \<noteq> Fit" using assms(3) by (simp add: when_set_def)
    then consider "m = Cover" | "m = Force" | "m = ShrinkOnly" | "m = EnlargeOnly"
      by (cases m) simp_all
    then show ?thesis
    proof cases
      case 1
      have "parse_tokens ([''crop'', ?a @ ''x'' @ ?b] @ rest) ops
            = parse_tokens rest ((set_dims [?a, ?b] ops)\<lparr>thumbnailMode := Some Cover\<rparr>)"
        by (simp add: step_two parse_step_def crop_arg_dims [OF a b, simplified])
      then show ?thesis using Some 1 by (simp add: resize_tokens_def d False)
    next
      case 2
      have "parse_tokens ([''thumbnail'', ?a @ ''x'' @ ?b @ ''!''] @ rest) ops
            = parse_tokens rest ((set_dims [?a, ?b] ops)\<lparr>thumbnailMode := Some Force\<rparr>)"
        by (simp add: step_two parse_step_def thumbnail_arg_force [OF a b, simplified])
      then show ?thesis using Some 2 by (simp add: resize_tokens_def d False)
    next
      case 3
      have "parse_tokens ([''thumbnail'', ?a @ ''x'' @ ?b @ ''>''] @ rest) ops
            = parse_tokens rest ((set_dims [?a, ?b] ops)\<lparr>thumbnailMode := Some ShrinkOnly\<rparr>)"
        by (simp add: step_two parse_step_def thumbnail_arg_shrink [OF a b, simplified])
      then show ?thesis using Some 3 by (simp add: resize_tokens_def d False)
    next
      case 4
      have "parse_tokens ([''thumbnail'', ?a @ ''x'' @ ?b @ ''<''] @ rest) ops
            = parse_tokens rest ((set_dims [?a, ?b] ops)\<lparr>thumbnailMode := Some EnlargeOnly\<rparr>)"
        by (simp add: step_two parse_step_def thumbnail_arg_enlarge [OF a b, simplified])
      then show ?thesis using Some 4 by (simp add: resize_tokens_def d False)
    qed
  qed
qed

lemma group_arg:
  assumes "CHR ''/'' \<notin> set key" and "when_set (\<lambda>x. CHR ''/'' \<notin> set (g x)) v"
    and "kv = key @ ''/''"
  shows "concat (map (split_on (CHR ''/'')) (case v of None \<Rightarrow> [] | Some n \<Rightarrow> [kv @ g n]))
         = arg_tokens key (map_option g v)"
proof (cases v)
  case None
  then show ?thesis by (simp add: arg_tokens_def)
next
  case (Some n)
  then have "CHR ''/'' \<notin> set (g n)" using assms(2) by (simp add: when_set_def)
  then show ?thesis
    using Some key_value_tokens [OF assms(1), of "g n"] by (simp add: arg_tokens_def assms(3))
qed

lemma when_set_mono: "when_set p v \<Longrightarrow> (\<And>x. p x \<Longrightarrow> q x) \<Longrightarrow> when_set q v"
  by (cases v) (simp_all add: when_set_def)

lemma group_number:
  assumes "CHR ''/'' \<notin> set key" and "when_set is_integer v" and "kv = key @ ''/''"
  shows "concat (map (split_on (CHR ''/''))
           (case v of None \<Rightarrow> [] | Some n \<Rightarrow> [kv @ number_to_string n]))
         = arg_tokens key (map_option number_to_string v)"
  by (rule group_arg [OF assms(1) _ assms(3)])
     (rule when_set_mono [OF assms(2)], simp add: integer_string)

lemma group_flip:
  "concat (map (split_on (CHR ''/'')) (case v of None \<Rightarrow> [] | Some d \<Rightarrow> [''flip/'' @ flip_name d]))
   = arg_tokens ''flip'' (map_option flip_name v)"
proof -
  have "when_set (\<lambda>d. CHR ''/'' \<notin> set (flip_name d)) v"
  proof (cases v)
    case None
    then show ?thesis by (simp add: when_set_def)
  next
    case (Some d)
    then show ?thesis by (cases d) (simp_all add: when_set_def)
  qed
  then show ?thesis by (intro group_arg) simp_all
qed

lemma group_format:
  assumes "when_set (\<lambda>f. f \<noteq> [] \<and> CHR ''/'' \<notin> set f) v"
  shows "concat (map (split_on (CHR ''/''))
           (case v of None \<Rightarrow> [] | Some f \<Rightarrow> if f \<noteq> [] then [''format/'' @ f] else []))
         = arg_tokens ''format'' v"
proof (cases v)
  case None
  then show ?thesis by (simp add: arg_tokens_def)
next
  case (Some f)
  then have f: "f \<noteq> []" "CHR ''/'' \<notin> set f" using assms by (simp_all add: when_set_def)
  have "CHR ''/'' \<notin> set ''format''" by simp
  from key_value_tokens [OF this f(2)] show ?thesis
    using Some f(1) by (simp add: arg_tokens_def)
qed

lemma group_quality:
  assumes "when_set (\<lambda>q. case q of QNum n \<Rightarrow> is_integer n
                            | QStr s \<Rightarrow> CHR ''/'' \<notin> set s \<and> isNaN (Number s)) v"
  shows "concat (map (split_on (CHR ''/''))
           (case v of None \<Rightarrow> [] | Some q \<Rightarrow> [''quality/'' @ quality_to_string q]))
         = arg_tokens ''quality'' (map_option quality_to_string v)"
proof -
  have "when_set (\<lambda>q. CHR ''/'' \<notin> set (quality_to_string q)) v"
  proof (rule when_set_mono [OF assms])
    fix q
    assume "case q of QNum n \<Rightarrow> is_integer n | QStr s \<Rightarrow> CHR ''/'' \<notin> set s \<and> isNaN (Number s)"
    then show "CHR ''/'' \<notin> set (quality_to_string q)"
      by (cases q) (simp_all add: integer_string)
  qed
  then show ?thesis by (intro group_arg) simp_all
qed

lemma group_auto_orient:
  "concat (map (split_on (CHR ''/'')) (if b = Some True then [''auto-orient''] else []))
   = flag_tokens [''auto-orient''] b"
  by (simp add: flag_tokens_def)

lemma group_ignore_error:
  "concat (map (split_on (CHR ''/'')) (if b = Some True then [''ignore-error/1''] else []))
   = flag_tokens [''ignore-error'', ''1''] b"
  by (simp add: flag_tokens_def)

lemma dims_no_slash:
  assumes "when_set is_count w" and "when_set is_count h"
  shows "CHR ''/'' \<notin> set (dimension w @ ''x'' @ dimension h @ r) \<longleftrightarrow> CHR ''/'' \<notin> set r"
  using dimension_digits [OF assms(1)] dimension_digits [OF assms(2)] digit_chars_no_slash
  by auto

lemma group_resize:
  assumes "when_set is_count (width ops)" and "when_set is_count (height ops)"
  shows "concat (map (split_on (CHR ''/''))
     (if width ops \<noteq> None \<or> height ops \<noteq> None
      then [case (case thumbnailMode ops of None \<Rightarrow> Fit | Some m \<Rightarrow> m) of
              Cover \<Rightarrow> ''crop/'' @ dimension (width ops) @ ''x'' @ dimension (height ops)
            | Force \<Rightarrow> ''thumbnail/'' @ dimension (width ops) @ ''x'' @ dimension (height ops) @ ''!''
            | ShrinkOnly \<Rightarrow> ''thumbnail/'' @ dimension (width ops) @ ''x'' @ dimension (height ops) @ ''>''
            | EnlargeOnly \<Rightarrow> ''thumbnail/'' @ dimension (width ops) @ ''x'' @ dimension (height ops) @ ''<''
            | Fit \<Rightarrow> ''thumbnail/'' @ dimension (width ops) @ ''x'' @ dimension (height ops)]
      else []))
     = resize_tokens ops"
proof -
  have k: "CHR ''/'' \<notin> set ''crop''" "CHR ''/'' \<notin> set ''thumbnail''" by simp_all
  have n: "CHR ''/'' \<notin> set (dimension (width ops) @ ''x'' @ dimension (height ops) @ r)"
    if "CHR ''/'' \<notin> set r" for r
    using that dims_no_slash [OF assms] by blast
  have c: "split_on (CHR ''/'') (''crop/'' @ dimension (width ops) @ ''x'' @ dimension (height ops) @ [])
           = [''crop'', dimension (width ops) @ ''x'' @ dimension (height ops) @ []]"
    using key_value_tokens [OF k(1) n [of "[]"]] by simp
  have t: "split_on (CHR ''/'') (''thumbnail/'' @ dimension (width ops) @ ''x'' @ dimension (height ops) @ r)
           = [''thumbnail'', dimension (width ops) @ ''x'' @ dimension (height ops) @ r]"
    if "CHR ''/'' \<notin> set r" for r
    using key_value_tokens [OF k(2) n [OF that]] by simp
  note t0 = t [of "[]", simplified] and t1 = t [of "''!''", simplified]
    and t2 = t [of "''>''", simplified] and t3 = t [of "''<''", simplified]
    and c0 = c [simplified]
  show ?thesis
  proof (cases "thumbnailMode ops")
    case None
    then show ?thesis by (simp add: resize_tokens_def t0)
  next
    case (Some m)
    then show ?thesis
      by (cases m) (simp_all add: resize_tokens_def t0 t1 t2 t3 c0)
  qed
qed

lemma flat_tokens_groups:
  assumes "round_trips ops"
  shows "flat_tokens ops =
     resize_tokens ops
     @ arg_tokens ''iradius'' (map_option number_to_string (iradius ops))
     @ arg_tokens ''rradius'' (map_option number_to_string (rradius ops))
     @ flag_tokens [''auto-orient''] (autoOrient ops)
     @ arg_tokens ''rotate'' (map_option number_to_string (rotate_op ops))
     @ arg_tokens ''flip'' (map_option flip_name (flip ops))
     @ arg_tokens ''format'' (format ops)
     @ arg_tokens ''quality'' (map_option quality_to_string (quality ops))
     @ arg_tokens ''rquality'' (map_option number_to_string (rquality ops))
     @ arg_tokens ''lquality'' (map_option number_to_string (lquality ops))
     @ flag_tokens [''ignore-error'', ''1''] (ignoreError ops) @ []"
proof -
  have h: "when_set is_count (width ops)" "when_set is_count (height ops)"
    "when_set (\<lambda>f. f \<noteq> [] \<and> CHR ''/'' \<notin> set f) (format ops)"
    "when_set (\<lambda>q. case q of QNum n \<Rightarrow> is_integer n
                            | QStr s \<Rightarrow> CHR ''/'' \<notin> set s \<and> isNaN (Number s)) (quality ops)"
    "when_set is_integer (rotate_op ops)" "when_set is_integer (iradius ops)"
    "when_set is_integer (rradius ops)" "when_set is_integer (rquality ops)"
    "when_set is_integer (lquality ops)"
    using assms by (simp_all add: round_trips_def)
  have g1: "concat (map (split_on (CHR ''/''))
      (case iradius ops of None \<Rightarrow> [] | Some n \<Rightarrow> [''iradius/'' @ number_to_string n]))
      = arg_tokens ''iradius'' (map_option number_to_string (iradius ops))"
    by (rule group_number [OF _ h(6)]) simp_all
  have g2: "concat (map (split_on (CHR ''/''))
      (case rradius ops of None \<Rightarrow> [] | Some n \<Rightarrow> [''rradius/'' @ number_to_string n]))
      = arg_tokens ''rradius'' (map_option number_to_string (rradius ops))"
    by (rule group_number [OF _ h(7)]) simp_all
  have g3: "concat (map (split_on (CHR ''/''))
      (case rotate_op ops of None \<Rightarrow> [] | Some n \<Rightarrow> [''rotate/'' @ number_to_string n]))
      = arg_tokens ''rotate'' (map_option number_to_string (rotate_op ops))"
    by (rule group_number [OF _ h(5)]) simp_all
  have g4: "concat (map (split_on (CHR ''/''))
      (case rquality ops of None \<Rightarrow> [] | Some n \<Rightarrow> [''rquality/'' @ number_to_string n]))
      = arg_tokens ''rquality'' (map_option number_to_string (rquality ops))"
    by (rule group_number [OF _ h(8)]) simp_all
  have g5: "concat (map (split_on (CHR ''/''))
      (case lquality ops of None \<Rightarrow> [] | Some n \<Rightarrow> [''lquality/'' @ number_to_string n]))
      = arg_tokens ''lquality'' (map_option number_to_string (lquality ops))"
    by (rule group_number [OF _ h(9)]) simp_all
  show ?thesis
    unfolding flat_tokens_def build_parts_concat
    by (simp only: map_append concat_append group_resize [OF h(1) h(2)] g1 g2 g3 g4 g5
        group_flip group_format [OF h(3)] group_quality [OF h(4)] group_auto_orient
        group_ignore_error append_Nil2)
qed

lemma parse_groups:
  assumes "round_trips ops"
  shows "parse_tokens (flat_tokens ops) acc =
     ignoreError_update (\<lambda>y. over y (ignoreError ops))
      (lquality_update (\<lambda>y. over y (lquality ops))
       (rquality_update (\<lambda>y. over y (rquality ops))
        (quality_update (\<lambda>y. over y (quality ops))
         (format_update (\<lambda>y. over y (format ops))
          (flip_update (\<lambda>y. over y (flip ops))
           (rotate_op_update (\<lambda>y. over y (rotate_op ops))
            (autoOrient_update (\<lambda>y. over y (autoOrient ops))
             (rradius_update (\<lambda>y. over y (rradius ops))
              (iradius_update (\<lambda>y. over y (iradius ops))
               (thumbnailMode_update (\<lambda>y. over y (thumbnailMode ops))
                (height_update (\<lambda>y. over y (height ops))
                 (width_update (\<lambda>y. over y (width ops)) acc))))))))))))"
proof -
  have h: "when_set is_count (width ops)" "when_set is_count (height ops)"
    "when_set (\<lambda>m. m \<noteq> Fit \<and> (width ops \<noteq> None \<or> height ops \<noteq> None)) (thumbnailMode ops)"
    "when_set (\<lambda>q. case q of QNum n \<Rightarrow> is_integer n
                            | QStr s \<Rightarrow> CHR ''/'' \<notin> set s \<and> isNaN (Number s)) (quality ops)"
    "when_set (\<lambda>b. b) (autoOrient ops)" "when_set (\<lambda>b. b) (ignoreError ops)"
    "when_set is_integer (rotate_op ops)" "when_set is_integer (iradius ops)"
    "when_set is_integer (rradius ops)" "when_set is_integer (rquality ops)"
    "when_set is_integer (lquality ops)"
    using assms by (simp_all add: round_trips_def)
  show ?thesis
    unfolding flat_tokens_groups [OF assms]
    by (simp only: step_resize [OF h(1) h(2) h(3)] step_iradius [OF h(8)] step_rradius [OF h(9)]
        step_auto_orient [OF h(5)] step_rotate [OF h(7)] step_flip step_format
        step_quality [OF h(4)] step_rquality [OF h(10)] step_lquality [OF h(11)]
        step_ignore_error [OF h(6)] parse_tokens.simps(1))
qed

lemma fill_no_operations:
  "ignoreError_update (\<lambda>y. over y (ignoreError ops))
      (lquality_update (\<lambda>y. over y (lquality ops))
       (rquality_update (\<lambda>y. over y (rquality ops))
        (quality_update (\<lambda>y. over y (quality ops))
         (format_update (\<lambda>y. over y (format ops))
          (flip_update (\<lambda>y. over y (flip ops))
           (rotate_op_update (\<lambda>y. over y (rotate_op ops))
            (autoOrient_update (\<lambda>y. over y (autoOrient ops))
             (rradius_update (\<lambda>y. over y (rradius ops))
              (iradius_update (\<lambda>y. over y (iradius ops))
               (thumbnailMode_update (\<lambda>y. over y (thumbnailMode ops))
                (height_update (\<lambda>y. over y (height ops))
                 (width_update (\<lambda>y. over y (width ops)) no_operations))))))))))))
   = ops"
  by (cases ops) (simp add: no_operations_def over_None)

text \<open>
  C2, as amended. Parsing what the serializer wrote gives back the operation set, for every
  operation set that \<open>round_trips\<close> admits: width and height are non-negative integers and
  the other numbers are integers, all below \<open>2 ^ 53\<close> in absolute value; \<open>thumbnailMode\<close> is
  absent, or is not \<open>fit\<close> and comes with a width or a height; the format is absent, or is
  not empty and has no \<open>/\<close>; the quality is absent, an integer, or a string without \<open>/\<close>
  that does not read as a number; \<open>autoOrient\<close> and \<open>ignoreError\<close> are absent or true.
\<close>

theorem parse_inverts_build:
  assumes "round_trips ops"
  shows "parseImageMogr2 (buildImageMogr2 ops) = ops"
  unfolding parse_built parse_groups [OF assms] by (rule fill_no_operations)

theorem parse_inverts_build_witness:
  "round_trips FULL_operations
   \<and> buildImageMogr2 FULL_operations
       = ''imageMogr2/thumbnail/400x300!/iradius/50/rradius/10/auto-orient/rotate/90/flip/horizontal/format/webp/quality/90!/rquality/80/lquality/70/ignore-error/1''
   \<and> parseImageMogr2 (buildImageMogr2 FULL_operations) = FULL_operations"
proof -
  have r: "round_trips FULL_operations" by code_simp
  have b: "buildImageMogr2 FULL_operations
       = ''imageMogr2/thumbnail/400x300!/iradius/50/rradius/10/auto-orient/rotate/90/flip/horizontal/format/webp/quality/90!/rquality/80/lquality/70/ignore-error/1''"
    by code_simp
  from r b parse_inverts_build [OF r] show ?thesis by (intro conjI)
qed

text \<open>
  C2 as stated fails: \<open>thumbnailMode\<close> \<open>fit\<close> is in the vocabulary, the serializer writes
  it as the plain \<open>thumbnail\<close> token, and the parser leaves the mode unset on reading that
  token, so the field does not come back.
\<close>

theorem parse_inverts_build_as_stated_counterexample:
  "buildImageMogr2 FIT_operations = ''imageMogr2/thumbnail/400x''
   \<and> parseImageMogr2 (buildImageMogr2 FIT_operations) = no_operations\<lparr>width := Some (Fin 400)\<rparr>
   \<and> thumbnailMode (parseImageMogr2 (buildImageMogr2 FIT_operations)) = None
   \<and> thumbnailMode FIT_operations = Some Fit
   \<and> parseImageMogr2 (buildImageMogr2 FIT_operations) \<noteq> FIT_operations"
  by code_simp

end
